theory Spec2Isabelle
  imports Main
begin

section \<open>Exceptions\<close>

text \<open>
  Every exception that can leave one of the modelled functions is a value of \<open>error\<close>;
  a function that may raise returns \<open>error + 'a\<close>, with \<open>Inl\<close> for the exception.
  \<open>SystemExit\<close> is what \<^verbatim>\<open>sys.exit(1)\<close> raises; \<open>OtherException\<close> stands for any exception
  of a collaborator that the runner does not catch.
\<close>

datatype error =
    ValueError string
  | AssertionError string
  | IndexError
  | SystemExit int
  | OtherException string

section \<open>trunner.types and trunner.harness, as the runner uses them\<close>

datatype Status = OK | FAIL | SKIP

text \<open>
  Modelled from the spec: the class \<^verbatim>\<open>TestResult\<close> of \<^verbatim>\<open>trunner.types\<close> (not among the
  sources): a name, a status in OK, FAIL, SKIP and a message. \<^verbatim>\<open>TestResult(name)\<close> starts
  as OK with an empty message, \<^verbatim>\<open>skip()\<close> sets the status SKIP, \<^verbatim>\<open>fail(msg)\<close> sets the
  status FAIL and stores the message.
\<close>

record TestResult =
  res_name :: string
  msg :: string
  status :: Status

definition new_TestResult :: "string \<Rightarrow> TestResult" where
  "new_TestResult n = \<lparr>res_name = n, msg = [], status = OK\<rparr>"

definition result_skip :: "TestResult \<Rightarrow> TestResult" where
  "result_skip r = r\<lparr>status := SKIP\<rparr>"

definition result_fail :: "TestResult \<Rightarrow> string \<Rightarrow> TestResult" where
  "result_fail r m = r\<lparr>msg := m, status := FAIL\<rparr>"

definition is_fail :: "TestResult \<Rightarrow> bool" where
  "is_fail r = (status r = FAIL)"

definition is_skip :: "TestResult \<Rightarrow> bool" where
  "is_skip r = (status r = SKIP)"

text \<open>
  Modelled from the spec: the class \<^verbatim>\<open>TestOptions\<close> of \<^verbatim>\<open>trunner.types\<close> (not among the
  sources). The runner reads \<^verbatim>\<open>name\<close>, \<^verbatim>\<open>ignore\<close>, \<^verbatim>\<open>should_reboot\<close> and
  \<^verbatim>\<open>bootloader\<close> (absent, or a structure with a list \<^verbatim>\<open>apps\<close>); every other field
  is opaque to it and lives in the extension slot of the record. Each entry of the test
  list is a descriptor of its own, so the list is a list of records.
\<close>

record BootloaderOptions =
  apps :: "string list"

record TestOptions =
  name :: string
  ignore :: bool
  should_reboot :: bool
  bootloader :: "BootloaderOptions option"

text \<open>
  What a call of a harness does: it returns a result or nothing, raises
  \<^verbatim>\<open>HarnessError\<close> (with the text \<^verbatim>\<open>str(e)\<close> gives), or raises something else.
  A harness and the target act on the device, whose state \<open>'w\<close> is threaded through;
  they read the descriptor they are given and do not write it.
\<close>

datatype harness_outcome =
    Returns "TestResult option"
  | Raises_HarnessError string
  | Raises_Other string

type_synonym 'w harness = "'w \<Rightarrow> harness_outcome \<times> 'w"

datatype flash_outcome =
    Flashed
  | Raises_FlashError string
  | Flash_Raises_HarnessError string
  | Flash_Raises_Other string

record ('a, 'w) Target =
  build_test :: "'a TestOptions_scheme \<Rightarrow> 'w \<Rightarrow> 'w harness option \<times> 'w"
  flash_dut :: "'w \<Rightarrow> flash_outcome \<times> 'w"

record ('a, 'w) Context =
  should_flash :: bool
  should_test :: bool
  nightly :: bool
  target :: "('a, 'w) Target"

section \<open>trunner/test\_runner.py\<close>

subsection \<open>The state of a campaign\<close>

text \<open>
  The loop of \<^verbatim>\<open>run_tests\<close> works on the test list (mutated in place), the counters
  \<^verbatim>\<open>fail\<close> and \<^verbatim>\<open>skip\<close>, and the device. Two logs make its effects visible: \<open>results\<close> is
  the sequence of results printed at line 112, one per processed test, and \<open>calls\<close> is the
  sequence of calls made on the target. The other console output is not modelled.
\<close>

datatype 'a call =
    FlashDut
  | BuildTest "'a TestOptions_scheme"
  | HarnessCall "'a TestOptions_scheme"

record ('a, 'w) run_state =
  tests :: "'a TestOptions_scheme list"
  fail :: nat
  skip :: nat
  results :: "TestResult list"
  calls :: "'a call list"
  world :: 'w

subsection \<open>set\_reboot\_flag (lines 119 to 139)\<close>

definition needs_bootloader_apps :: "'a TestOptions_scheme \<Rightarrow> bool" where
  "needs_bootloader_apps t =
     (case bootloader t of None \<Rightarrow> False | Some b \<Rightarrow> apps b \<noteq> [])"

text \<open>
  \<^verbatim>\<open>tests[idx + 1]\<close> raises \<^verbatim>\<open>IndexError\<close> past the end of the list; the loop never calls
  the function there.
\<close>

definition set_reboot_flag ::
  "('a, 'w) Context \<Rightarrow> 'a TestOptions_scheme list \<Rightarrow> nat \<Rightarrow> TestResult
     \<Rightarrow> error + 'a TestOptions_scheme list" where
  "set_reboot_flag ctx ts idx result =
     (if int idx = int (length ts) - 1 then Inr ts
      else if \<not> idx + 1 < length ts then Inl IndexError
      else
        let ts1 = ts[idx + 1 := (ts ! (idx + 1))\<lparr>should_reboot := False\<rparr>];
            ts2 = (if is_skip result
                   then ts1[idx + 1 := (ts1 ! (idx + 1))\<lparr>should_reboot := should_reboot (ts1 ! idx)\<rparr>]
                   else ts1);
            ts3 = (if is_fail result \<or> nightly ctx \<or> needs_bootloader_apps (ts2 ! (idx + 1))
                   then ts2[idx + 1 := (ts2 ! (idx + 1))\<lparr>should_reboot := True\<rparr>]
                   else ts2)
        in Inr ts3)"

subsection \<open>One iteration of the loop of run\_tests (lines 94 to 141)\<close>

text \<open>Lines 94 to 110: the result of the test, with the calls made to get it.\<close>

definition execute_test ::
  "('a, 'w) Context \<Rightarrow> 'a TestOptions_scheme \<Rightarrow> ('a, 'w) run_state
     \<Rightarrow> error + TestResult \<times> ('a, 'w) run_state" where
  "execute_test ctx test st =
     (let result = new_TestResult (name test) in
      if ignore test then Inr (result_skip result, st)
      else
        (case build_test (target ctx) test (world st) of
           (None, w1) \<Rightarrow> Inl (AssertionError [])
         | (Some harness, w1) \<Rightarrow>
             (case harness w1 of
                (Returns (Some r), w2) \<Rightarrow>
                  Inr (r, st\<lparr>calls := calls st @ [BuildTest test, HarnessCall test], world := w2\<rparr>)
              | (Returns None, w2) \<Rightarrow>
                  Inr (\<lparr>res_name = name test, msg = [], status = OK\<rparr>,
                       st\<lparr>calls := calls st @ [BuildTest test, HarnessCall test], world := w2\<rparr>)
              | (Raises_HarnessError m, w2) \<Rightarrow>
                  Inr (result_fail result m,
                       st\<lparr>calls := calls st @ [BuildTest test, HarnessCall test], world := w2\<rparr>)
              | (Raises_Other m, w2) \<Rightarrow> Inl (OtherException m))))"

text \<open>Lines 112 to 117: the result is printed and counted.\<close>

definition count_result :: "TestResult \<Rightarrow> ('a, 'w) run_state \<Rightarrow> ('a, 'w) run_state" where
  "count_result result st =
     (let st1 = st\<lparr>results := results st @ [result]\<rparr> in
      if is_fail result then st1\<lparr>fail := fail st1 + 1\<rparr>
      else if is_skip result then st1\<lparr>skip := skip st1 + 1\<rparr>
      else st1)"

text \<open>
  The body of the loop for the index \<open>idx\<close>; \<^verbatim>\<open>test\<close> is the object \<^verbatim>\<open>tests[idx]\<close>, as the
  list holds it when the iteration starts. \<^verbatim>\<open>enumerate\<close> only gives indices of the list.
\<close>

definition loop_body ::
  "('a, 'w) Context \<Rightarrow> nat \<Rightarrow> ('a, 'w) run_state \<Rightarrow> error + ('a, 'w) run_state" where
  "loop_body ctx idx st =
     (if \<not> idx < length (tests st) then Inl IndexError
      else
        (case execute_test ctx (tests st ! idx) st of
           Inl e \<Rightarrow> Inl e
         | Inr (result, st1) \<Rightarrow>
             (let st2 = count_result result st1 in
              case set_reboot_flag ctx (tests st2) idx result of
                Inl e \<Rightarrow> Inl e
              | Inr ts \<Rightarrow> Inr (st2\<lparr>tests := ts\<rparr>))))"

subsection \<open>run\_tests (lines 81 to 143)\<close>

fun run_loop ::
  "('a, 'w) Context \<Rightarrow> nat list \<Rightarrow> ('a, 'w) run_state \<Rightarrow> error + ('a, 'w) run_state" where
  "run_loop ctx [] st = Inr st"
| "run_loop ctx (idx # idxs) st =
     (case loop_body ctx idx st of
        Inl e \<Rightarrow> Inl e
      | Inr st1 \<Rightarrow> run_loop ctx idxs st1)"

definition start_state ::
  "'a TestOptions_scheme list \<Rightarrow> 'a call list \<Rightarrow> 'w \<Rightarrow> ('a, 'w) run_state" where
  "start_state ts cs w = \<lparr>tests = ts, fail = 0, skip = 0, results = [], calls = cs, world = w\<rparr>"

text \<open>
  The value Python returns is the pair of \<open>fail\<close> and \<open>skip\<close> of the final state; the
  state is returned whole, since the caller keeps the list and the device.
\<close>

definition run_tests ::
  "('a, 'w) Context \<Rightarrow> 'a TestOptions_scheme list \<Rightarrow> 'a call list \<Rightarrow> 'w
     \<Rightarrow> error + ('a, 'w) run_state" where
  "run_tests ctx ts cs w = run_loop ctx [0..<length ts] (start_state ts cs w)"

subsection \<open>search\_for\_tests (lines 32 to 53)\<close>

text \<open>
  A \<^verbatim>\<open>Path\<close> is its text. What the file system answers is a parameter: the kind of entry a
  path points to (\<^verbatim>\<open>is_dir\<close> and \<^verbatim>\<open>is_file\<close> are never both true), and the list
  \<^verbatim>\<open>rglob\<close> gives for a path and a pattern. \<open>suffix\<close> is \<^verbatim>\<open>PurePath.suffix\<close>: the
  final component from its last dot on, empty when there is no dot, when the only dot
  starts the component or when the dot ends it.
\<close>

datatype path_kind = Directory | RegularFile | NoSuchEntry

record filesystem =
  kind_of :: "string \<Rightarrow> path_kind"
  rglob :: "string \<Rightarrow> string \<Rightarrow> string list"

definition is_dir :: "filesystem \<Rightarrow> string \<Rightarrow> bool" where
  "is_dir fs path = (kind_of fs path = Directory)"

definition is_file :: "filesystem \<Rightarrow> string \<Rightarrow> bool" where
  "is_file fs path = (kind_of fs path = RegularFile)"

definition final_component :: "string \<Rightarrow> string" where
  "final_component path = rev (takeWhile (\<lambda>c. c \<noteq> CHR ''/'') (rev path))"

definition suffix :: "string \<Rightarrow> string" where
  "suffix path =
     (let n = final_component path;
          ext = rev (takeWhile (\<lambda>c. c \<noteq> CHR ''.'') (rev n))
      in if CHR ''.'' \<notin> set n then []
         else if 0 < length n - length ext - 1 \<and> ext \<noteq> [] then CHR ''.'' # ext
         else [])"

fun search_loop :: "filesystem \<Rightarrow> string list \<Rightarrow> string list \<Rightarrow> error + string list" where
  "search_loop fs [] paths = Inr paths"
| "search_loop fs (path # rest) paths =
     (if is_dir fs path then
        (let yamls = rglob fs path ''test*.yaml'' @ rglob fs path ''test*.yml'' in
         if yamls = []
         then Inl (ValueError (path @ '' does not contain .yaml test configuration''))
         else search_loop fs rest (paths @ yamls))
      else if is_file fs path then
        (if suffix path \<noteq> ''.yaml'' \<and> suffix path \<noteq> ''.yml''
         then Inl (ValueError ''Test configuration must be a file with .yaml or .yml extension'')
         else search_loop fs rest (paths @ [path]))
      else Inl (ValueError (''Test configuration '' @ path @ '' is neither a directory nor a file.'')))"

definition search_for_tests :: "filesystem \<Rightarrow> string list \<Rightarrow> error + string list" where
  "search_for_tests fs test_paths = search_loop fs test_paths []"

subsection \<open>parse\_tests (lines 55 to 65) and flash (lines 67 to 79)\<close>

text \<open>
  \<^verbatim>\<open>ConfigParser.parse\<close> is a collaborator: a parameter that gives the descriptors of a
  file or raises.
\<close>

record 'a Environment =
  fs :: filesystem
  parse :: "string \<Rightarrow> error + 'a TestOptions_scheme list"

fun parse_loop ::
  "(string \<Rightarrow> error + 'a TestOptions_scheme list) \<Rightarrow> string list \<Rightarrow> 'a TestOptions_scheme list
     \<Rightarrow> error + 'a TestOptions_scheme list" where
  "parse_loop prs [] ts = Inr ts"
| "parse_loop prs (path # rest) ts =
     (case prs path of
        Inl e \<Rightarrow> Inl e
      | Inr parsed \<Rightarrow> parse_loop prs rest (ts @ parsed))"

definition parse_tests ::
  "'a Environment \<Rightarrow> string list \<Rightarrow> error + 'a TestOptions_scheme list" where
  "parse_tests env test_paths =
     (case search_for_tests (fs env) test_paths of
        Inl e \<Rightarrow> Inl e
      | Inr test_yamls \<Rightarrow> parse_loop (parse env) test_yamls [])"

definition flash :: "('a, 'w) Context \<Rightarrow> 'w \<Rightarrow> error + 'w" where
  "flash ctx w =
     (case flash_dut (target ctx) w of
        (Flashed, w1) \<Rightarrow> Inr w1
      | (Raises_FlashError m, w1) \<Rightarrow> Inl (SystemExit 1)
      | (Flash_Raises_HarnessError m, w1) \<Rightarrow> Inl (SystemExit 1)
      | (Flash_Raises_Other m, w1) \<Rightarrow> Inl (OtherException m))"

subsection \<open>run (lines 145 to 166)\<close>

text \<open>
  What \<^verbatim>\<open>run\<close> returns, with the numbers of the summary line (total, passed, failed,
  skipped) when it is printed, and the state the campaign ends in.
\<close>

record ('a, 'w) campaign =
  success :: bool
  summary :: "(int \<times> int \<times> int \<times> int) option"
  final :: "('a, 'w) run_state"

definition run ::
  "'a Environment \<Rightarrow> ('a, 'w) Context \<Rightarrow> string list \<Rightarrow> 'w \<Rightarrow> error + ('a, 'w) campaign" where
  "run env ctx test_paths w =
     (case parse_tests env test_paths of
        Inl e \<Rightarrow> Inl e
      | Inr ts \<Rightarrow>
          (case (if should_flash ctx
                 then (case flash ctx w of Inl e \<Rightarrow> Inl e | Inr w1 \<Rightarrow> Inr ([FlashDut], w1))
                 else Inr ([], w)) of
             Inl e \<Rightarrow> Inl e
           | Inr (cs, w1) \<Rightarrow>
               if \<not> should_test ctx
               then Inr \<lparr>success = True, summary = None, final = start_state ts cs w1\<rparr>
               else
                 (case run_tests ctx ts cs w1 of
                    Inl e \<Rightarrow> Inl e
                  | Inr st \<Rightarrow>
                      (let fails = int (fail st);
                           skips = int (skip st);
                           passes = int (length ts) - fails - skips
                       in Inr \<lparr>success = (fails = 0),
                               summary = Some (int (length ts), passes, fails, skips),
                               final = st\<rparr>))))"

section \<open>psh/tools/login.py\<close>

text \<open>
  The session \<^verbatim>\<open>p\<close> is a \<^verbatim>\<open>pexpect\<close> object. Its two operations are parameters over a
  channel state \<open>'s\<close>: \<^verbatim>\<open>send\<close> writes a text, \<^verbatim>\<open>expect_exact\<close> waits for one of a list of
  patterns and returns the index of the one that matched (the index of \<^verbatim>\<open>pexpect.TIMEOUT\<close>
  when the time ran out and the list has it), or raises. The session keeps the list of
  the texts sent so far.
\<close>

datatype pattern = Exact string | TIMEOUT

record 's pexpect =
  raw_send :: "string \<Rightarrow> 's \<Rightarrow> 's"
  raw_expect_exact :: "pattern list \<Rightarrow> 's \<Rightarrow> (error + nat) \<times> 's"

record 's session =
  chan :: 's
  sent :: "string list"

definition send :: "'s pexpect \<Rightarrow> string \<Rightarrow> 's session \<Rightarrow> 's session" where
  "send ops text p = p\<lparr>chan := raw_send ops text (chan p), sent := sent p @ [text]\<rparr>"

definition expect_exact ::
  "'s pexpect \<Rightarrow> pattern list \<Rightarrow> 's session \<Rightarrow> (error + nat) \<times> 's session" where
  "expect_exact ops pats p =
     (case raw_expect_exact ops pats (chan p) of (r, c) \<Rightarrow> (r, p\<lparr>chan := c\<rparr>))"

definition newline :: string where
  "newline = [CHR 0x0A]"

definition log_in ::
  "'s pexpect \<Rightarrow> 's session \<Rightarrow> string \<Rightarrow> string \<Rightarrow> (error + unit) \<times> 's session" where
  "log_in ops p login passwd =
     (let p1 = send ops (login @ newline) p in
      case expect_exact ops [Exact login, TIMEOUT] p1 of
        (Inl e, p2) \<Rightarrow> (Inl e, p2)
      | (Inr i, p2) \<Rightarrow>
          if i \<noteq> 0 then (Inl (AssertionError ''Cannot enter login to login prompt''), p2)
          else
            (case expect_exact ops [Exact ''Password:'', TIMEOUT] p2 of
               (Inl e, p3) \<Rightarrow> (Inl e, p3)
             | (Inr j, p3) \<Rightarrow>
                 if j \<noteq> 0 then (Inl (AssertionError []), p3)
                 else (Inr (), send ops (passwd @ newline) p3)))"

section \<open>Concrete campaigns and sessions\<close>

text \<open>
  A target over a device that counts the harness calls made on it: the harness of the
  test named \<^verbatim>\<open>broken\<close> raises \<^verbatim>\<open>HarnessError\<close>, the one of \<^verbatim>\<open>failing\<close> returns a
  FAIL result, every other harness returns nothing.
\<close>

definition example_target :: "(unit, nat) Target" where
  "example_target =
     \<lparr>build_test = (\<lambda>t w. (Some (\<lambda>v.
        (if name t = ''broken'' then Raises_HarnessError ''no prompt''
         else if name t = ''failing''
         then Returns (Some \<lparr>res_name = name t, msg = ''assertion'', status = FAIL\<rparr>)
         else Returns None, Suc v)), w)),
      flash_dut = (\<lambda>w. (Flashed, 0))\<rparr>"

definition example_ctx :: "bool \<Rightarrow> bool \<Rightarrow> (unit, nat) Context" where
  "example_ctx testing nightly_mode =
     \<lparr>should_flash = True, should_test = testing, nightly = nightly_mode,
      target = example_target\<rparr>"

definition example_test :: "string \<Rightarrow> bool \<Rightarrow> bool \<Rightarrow> TestOptions" where
  "example_test n ign reboot =
     \<lparr>name = n, ignore = ign, should_reboot = reboot, bootloader = None\<rparr>"

definition example_test_apps :: "string \<Rightarrow> TestOptions" where
  "example_test_apps n =
     \<lparr>name = n, ignore = False, should_reboot = False,
      bootloader = Some \<lparr>apps = [''app'']\<rparr>\<rparr>"

definition example_fs :: filesystem where
  "example_fs =
     \<lparr>kind_of = (\<lambda>p. if p = ''psh'' \<or> p = ''empty'' then Directory
                     else if p = ''libc/test.yml'' \<or> p = ''notes.txt'' then RegularFile
                     else NoSuchEntry),
      rglob = (\<lambda>p pat. if p = ''psh'' \<and> pat = ''test*.yaml''
                        then [''psh/test.yaml'', ''psh/login/test_login.yaml'']
                        else [])\<rparr>"

text \<open>
  A directory \<^verbatim>\<open>dirmatch\<close> whose only entry is the empty sub-directory
  \<^verbatim>\<open>test_dir.yaml\<close>: there is no regular file at all. \<^verbatim>\<open>Path.rglob\<close> yields every
  entry whose name matches the pattern, directories as well as files.
\<close>

definition dirmatch_fs :: filesystem where
  "dirmatch_fs =
     \<lparr>kind_of = (\<lambda>p. if p = ''dirmatch'' \<or> p = ''dirmatch/test_dir.yaml'' then Directory
                     else NoSuchEntry),
      rglob = (\<lambda>p pat. if p = ''dirmatch'' \<and> pat = ''test*.yaml''
                        then [''dirmatch/test_dir.yaml'']
                        else [])\<rparr>"

definition example_env :: "unit Environment" where
  "example_env =
     \<lparr>fs = example_fs,
      parse = (\<lambda>p. if p = ''libc/test.yml''
                    then Inr [example_test ''failing'' False True, example_test ''off'' True False]
                    else Inr [example_test p False True])\<rparr>"

text \<open>
  A session that answers the successive calls of \<^verbatim>\<open>expect_exact\<close> from a script, and
  with a timeout (index 1) once the script is used up; its channel state is the number of
  calls made.
\<close>

definition scripted :: "(error + nat) list \<Rightarrow> nat pexpect" where
  "scripted script =
     \<lparr>raw_send = (\<lambda>text c. c),
      raw_expect_exact = (\<lambda>pats c. (if c < length script then script ! c else Inr 1, Suc c))\<rparr>"

definition fresh_session :: "nat session" where
  "fresh_session = \<lparr>chan = 0, sent = []\<rparr>"

section \<open>Facts about one iteration\<close>

lemmas example_defs = example_target_def example_ctx_def example_test_def example_test_apps_def
  start_state_def

lemmas runner_defs = loop_body_def execute_test_def count_result_def set_reboot_flag_def
  new_TestResult_def result_fail_def result_skip_def is_fail_def is_skip_def
  needs_bootloader_apps_def Let_def

text \<open>
  What \<open>set_reboot_flag\<close> does in its two regular cases: nothing after the last test, and
  otherwise one write of the flag of the next descriptor, whose value is the disjunction
  the three assignments of the source add up to.
\<close>

lemma set_reboot_flag_last:
  "Suc idx = length ts \<Longrightarrow> set_reboot_flag ctx ts idx r = Inr ts"
  by (simp add: set_reboot_flag_def)

lemma set_reboot_flag_next:
  assumes "Suc idx < length ts"
  shows "set_reboot_flag ctx ts idx r =
     Inr (ts[Suc idx := (ts ! Suc idx)\<lparr>should_reboot :=
        is_fail r \<or> nightly ctx \<or> needs_bootloader_apps (ts ! Suc idx)
          \<or> (is_skip r \<and> should_reboot (ts ! idx))\<rparr>])"
  using assms
  by (simp add: set_reboot_flag_def Let_def needs_bootloader_apps_def)

lemma execute_test_frame:
  assumes "execute_test ctx t st = Inr (r, st1)"
  shows "tests st1 = tests st" and "fail st1 = fail st" and "skip st1 = skip st"
    and "results st1 = results st"
  using assms
  unfolding execute_test_def Let_def
  by (simp_all split: if_splits prod.splits option.splits harness_outcome.splits, auto)

lemma count_result_simps:
  "tests (count_result r st) = tests st"
  "calls (count_result r st) = calls st"
  "world (count_result r st) = world st"
  "results (count_result r st) = results st @ [r]"
  "fail (count_result r st) = (if is_fail r then Suc (fail st) else fail st)"
  "skip (count_result r st) = (if \<not> is_fail r \<and> is_skip r then Suc (skip st) else skip st)"
  by (simp_all add: count_result_def Let_def)

text \<open>An iteration that completes, taken apart into its three steps.\<close>

lemma loop_body_Inr:
  assumes "loop_body ctx idx st = Inr st'"
  obtains r st1 where "idx < length (tests st)"
    and "execute_test ctx (tests st ! idx) st = Inr (r, st1)"
    and "set_reboot_flag ctx (tests st) idx r = Inr (tests st')"
    and "results st' = results st @ [r]"
    and "calls st' = calls st1" and "world st' = world st1"
    and "fail st' = (if is_fail r then Suc (fail st) else fail st)"
    and "skip st' = (if \<not> is_fail r \<and> is_skip r then Suc (skip st) else skip st)"
proof -
  from assms have len: "idx < length (tests st)"
    by (simp add: loop_body_def split: if_splits)
  from assms len obtain r st1 where ex: "execute_test ctx (tests st ! idx) st = Inr (r, st1)"
    by (cases "execute_test ctx (tests st ! idx) st") (auto simp add: loop_body_def)
  note fr = execute_test_frame [OF ex]
  from assms len ex obtain ts where
    flag: "set_reboot_flag ctx (tests st) idx r = Inr ts"
    and st': "st' = (count_result r st1)\<lparr>tests := ts\<rparr>"
    by (cases "set_reboot_flag ctx (tests st) idx r")
      (auto simp add: loop_body_def Let_def count_result_simps fr)
  show thesis
    by (rule that [OF len ex]) (simp_all add: st' flag count_result_simps fr)
qed

lemma loop_body_ok:
  assumes "idx < length (tests st)"
    and "execute_test ctx (tests st ! idx) st = Inr (r, st1)"
  shows "\<exists>st'. loop_body ctx idx st = Inr st'"
proof -
  note fr = execute_test_frame [OF assms(2)]
  have "\<exists>ts. set_reboot_flag ctx (tests st) idx r = Inr ts"
  proof (cases "Suc idx = length (tests st)")
    case True
    then show ?thesis by (simp add: set_reboot_flag_last)
  next
    case False
    with assms(1) have "Suc idx < length (tests st)" by simp
    then show ?thesis by (simp add: set_reboot_flag_next)
  qed
  then show ?thesis
    using assms by (auto simp add: loop_body_def Let_def count_result_simps fr)
qed

lemma loop_body_reboot_flag:
  assumes "loop_body ctx i st = Inr st'" and "Suc i < length (tests st)"
  shows "should_reboot (tests st' ! Suc i) =
     (is_fail (last (results st')) \<or> nightly ctx \<or> needs_bootloader_apps (tests st ! Suc i)
        \<or> (is_skip (last (results st')) \<and> should_reboot (tests st ! i)))"
proof -
  from assms(1) obtain r where
    flag: "set_reboot_flag ctx (tests st) i r = Inr (tests st')"
    and res: "results st' = results st @ [r]"
    by (rule loop_body_Inr)
  from flag assms(2) have "tests st' = (tests st)[Suc i := (tests st ! Suc i)\<lparr>should_reboot :=
        is_fail r \<or> nightly ctx \<or> needs_bootloader_apps (tests st ! Suc i)
          \<or> (is_skip r \<and> should_reboot (tests st ! i))\<rparr>]"
    by (simp add: set_reboot_flag_next)
  then have "should_reboot (tests st' ! Suc i) =
      (is_fail r \<or> nightly ctx \<or> needs_bootloader_apps (tests st ! Suc i)
          \<or> (is_skip r \<and> should_reboot (tests st ! i)))"
    using assms(2) by simp
  then show ?thesis by (simp add: res)
qed

lemma loop_body_tests:
  assumes "loop_body ctx i st = Inr st'"
  obtains b where "tests st' = (tests st)[Suc i := (tests st ! Suc i)\<lparr>should_reboot := b\<rparr>]"
proof -
  from assms obtain r where len: "i < length (tests st)"
    and flag: "set_reboot_flag ctx (tests st) i r = Inr (tests st')"
    by (rule loop_body_Inr)
  show thesis
  proof (cases "Suc i = length (tests st)")
    case True
    with flag have "tests st' = tests st"
      by (simp add: set_reboot_flag_last)
    with True have "tests st' = (tests st)[Suc i := (tests st ! Suc i)\<lparr>should_reboot := True\<rparr>]"
      by (simp add: list_update_beyond)
    then show thesis by (rule that)
  next
    case False
    with len have "Suc i < length (tests st)" by simp
    with flag have "tests st' = (tests st)[Suc i := (tests st ! Suc i)\<lparr>should_reboot :=
        is_fail r \<or> nightly ctx \<or> needs_bootloader_apps (tests st ! Suc i)
          \<or> (is_skip r \<and> should_reboot (tests st ! i))\<rparr>]"
      by (simp add: set_reboot_flag_next)
    then show thesis by (rule that)
  qed
qed

lemma loop_body_length:
  assumes "loop_body ctx i st = Inr st'"
  shows "length (tests st') = length (tests st)"
  using assms by (rule loop_body_tests) simp

lemma loop_body_other:
  assumes "loop_body ctx i st = Inr st'" and "j \<noteq> Suc i"
  shows "tests st' ! j = tests st ! j"
  using assms by (elim loop_body_tests) simp

lemma loop_body_same_but_flag:
  assumes "loop_body ctx i st = Inr st'"
  shows "\<exists>b. tests st' ! j = (tests st ! j)\<lparr>should_reboot := b\<rparr>"
proof -
  from assms obtain b where
    eq: "tests st' = (tests st)[Suc i := (tests st ! Suc i)\<lparr>should_reboot := b\<rparr>]"
    by (rule loop_body_tests)
  show ?thesis
  proof (cases "j = Suc i \<and> Suc i < length (tests st)")
    case True
    then have "tests st' ! j = (tests st ! j)\<lparr>should_reboot := b\<rparr>" by (simp add: eq)
    then show ?thesis by (rule exI)
  next
    case False
    then have "tests st' ! j = tests st ! j" by (auto simp add: eq list_update_beyond)
    then have "tests st' ! j = (tests st ! j)\<lparr>should_reboot := should_reboot (tests st ! j)\<rparr>"
      by simp
    then show ?thesis by (rule exI)
  qed
qed

text \<open>
  Over any sequence of iterations the descriptors keep every field but \<open>should_reboot\<close>,
  and a descriptor whose predecessor is not among the processed indices is not written at
  all; the first descriptor has no predecessor.
\<close>

lemma run_loop_frame:
  assumes "run_loop ctx idxs st = Inr st'"
  shows "length (tests st') = length (tests st)
    \<and> (j \<notin> Suc ` set idxs \<longrightarrow> tests st' ! j = tests st ! j)
    \<and> (\<exists>b. tests st' ! j = (tests st ! j)\<lparr>should_reboot := b\<rparr>)"
  using assms
proof (induction idxs arbitrary: st)
  case Nil
  have "tests st ! j = (tests st ! j)\<lparr>should_reboot := should_reboot (tests st ! j)\<rparr>" by simp
  then have "\<exists>b. tests st ! j = (tests st ! j)\<lparr>should_reboot := b\<rparr>" by (rule exI)
  with Nil show ?case by simp
next
  case (Cons i idxs)
  from Cons.prems obtain st1 where
    step: "loop_body ctx i st = Inr st1" and rest: "run_loop ctx idxs st1 = Inr st'"
    by (cases "loop_body ctx i st") auto
  note ih = Cons.IH [OF rest]
  from loop_body_same_but_flag [OF step, of j] obtain b1 where
    b1: "tests st1 ! j = (tests st ! j)\<lparr>should_reboot := b1\<rparr>" ..
  from ih obtain b2 where b2: "tests st' ! j = (tests st1 ! j)\<lparr>should_reboot := b2\<rparr>" by blast
  have "tests st' ! j = (tests st ! j)\<lparr>should_reboot := b2\<rparr>" by (simp add: b1 b2)
  then have "\<exists>b. tests st' ! j = (tests st ! j)\<lparr>should_reboot := b\<rparr>" by (rule exI)
  moreover have "length (tests st') = length (tests st)"
    using ih loop_body_length [OF step] by simp
  moreover have "j \<notin> Suc ` set (i # idxs) \<longrightarrow> tests st' ! j = tests st ! j"
    using ih loop_body_other [OF step, of j] by auto
  ultimately show ?case by blast
qed

lemma run_tests_first_descriptor:
  assumes "run_tests ctx ts cs w = Inr st"
  shows "length (tests st) = length ts \<and> tests st ! 0 = ts ! 0"
proof -
  from assms have "run_loop ctx [0..<length ts] (start_state ts cs w) = Inr st"
    by (simp add: run_tests_def)
  from run_loop_frame [OF this, of 0] show ?thesis
    by (simp add: start_state_def)
qed

section \<open>The reboot strategy\<close>

text \<open>
  Claim C1. For every test list and every index \<open>i\<close> that is not the last one: when the
  iteration for test \<open>i\<close> completes and the result of test \<open>i\<close> (the last result printed)
  is FAIL, the next descriptor has \<open>should_reboot\<close> set, whatever the nightly flag and the
  bootloader requirements of the next descriptor are.
\<close>

theorem failed_test_forces_reboot:
  assumes "loop_body ctx i st = Inr st'"
    and "Suc i < length (tests st)"
    and "status (last (results st')) = FAIL"
  shows "should_reboot (tests st' ! Suc i)"
  using assms by (simp add: loop_body_reboot_flag is_fail_def)

theorem failed_test_forces_reboot_witness:
  "\<exists>st'. loop_body (example_ctx True False) 0
      (start_state [example_test ''broken'' False False, example_test ''next'' False False] [] 0) = Inr st'
    \<and> Suc 0 < length [example_test ''broken'' False False, example_test ''next'' False False]
    \<and> status (last (results st')) = FAIL
    \<and> should_reboot (tests st' ! Suc 0)"
proof -
  let ?st = "start_state [example_test ''broken'' False False, example_test ''next'' False False] [] (0::nat)"
  let ?st' = "\<lparr>tests = [example_test ''broken'' False False, example_test ''next'' False True],
     fail = 1, skip = 0,
     results = [\<lparr>res_name = ''broken'', msg = ''no prompt'', status = FAIL\<rparr>],
     calls = [BuildTest (example_test ''broken'' False False),
              HarnessCall (example_test ''broken'' False False)],
     world = Suc 0\<rparr>"
  have run: "loop_body (example_ctx True False) 0 ?st = Inr ?st'"
    by (simp add: example_defs runner_defs)
  have len: "Suc 0 < length (tests ?st)" by (simp add: start_state_def)
  have res: "status (last (results ?st')) = FAIL" by simp
  from failed_test_forces_reboot [OF run len res] run show ?thesis
    by (intro exI [of _ ?st']) simp
qed

text \<open>
  Claim C2, as stated, fails: an ignored first test whose own \<open>should_reboot\<close> is set
  (the default) ends as SKIP, and the flag is handed on to the next descriptor although
  nothing failed, the campaign is not nightly and the next test loads no applications.
\<close>

theorem no_reboot_flag_after_skip_counterexample:
  "loop_body (example_ctx True False) 0
      (start_state [example_test ''off'' True True, example_test ''next'' False False] [] 0)
    = Inr \<lparr>tests = [example_test ''off'' True True, example_test ''next'' False True],
        fail = 0, skip = 1,
        results = [\<lparr>res_name = ''off'', msg = [], status = SKIP\<rparr>],
        calls = [], world = 0\<rparr>
   \<and> \<not> nightly (example_ctx True False)
   \<and> \<not> needs_bootloader_apps (example_test ''next'' False False)"
  by (simp add: example_defs runner_defs)

text \<open>
  Claim C2, amended. For every test list and every index \<open>i\<close> that is not the last one:
  when the result of test \<open>i\<close> is not FAIL, nightly mode is off, the next descriptor has no
  non-empty bootloader \<open>apps\<close>, and the result is not SKIP or the descriptor \<open>i\<close> itself
  has \<open>should_reboot\<close> unset, then after the iteration the next descriptor has
  \<open>should_reboot\<close> unset.
\<close>

theorem no_reboot_without_cause:
  assumes "loop_body ctx i st = Inr st'"
    and "Suc i < length (tests st)"
    and "status (last (results st')) \<noteq> FAIL"
    and "\<not> nightly ctx"
    and "\<not> needs_bootloader_apps (tests st ! Suc i)"
    and "status (last (results st')) \<noteq> SKIP \<or> \<not> should_reboot (tests st ! i)"
  shows "\<not> should_reboot (tests st' ! Suc i)"
  using assms by (auto simp add: loop_body_reboot_flag is_fail_def is_skip_def)

theorem no_reboot_without_cause_witness:
  "\<exists>st'. loop_body (example_ctx True False) 0
      (start_state [example_test ''plain'' False False, example_test ''next'' False True] [] 0) = Inr st'
    \<and> Suc 0 < length [example_test ''plain'' False False, example_test ''next'' False True]
    \<and> status (last (results st')) = OK
    \<and> \<not> nightly (example_ctx True False)
    \<and> \<not> needs_bootloader_apps (example_test ''next'' False True)
    \<and> \<not> should_reboot (tests st' ! Suc 0)"
proof -
  let ?st = "start_state [example_test ''plain'' False False, example_test ''next'' False True] [] (0::nat)"
  let ?st' = "\<lparr>tests = [example_test ''plain'' False False, example_test ''next'' False False],
     fail = 0, skip = 0,
     results = [\<lparr>res_name = ''plain'', msg = [], status = OK\<rparr>],
     calls = [BuildTest (example_test ''plain'' False False),
              HarnessCall (example_test ''plain'' False False)],
     world = Suc 0\<rparr>"
  have run: "loop_body (example_ctx True False) 0 ?st = Inr ?st'"
    by (simp add: example_defs runner_defs)
  have len: "Suc 0 < length (tests ?st)" by (simp add: start_state_def)
  have res: "status (last (results ?st')) \<noteq> FAIL" by simp
  have night: "\<not> nightly (example_ctx True False)" by (simp add: example_ctx_def)
  have boot: "\<not> needs_bootloader_apps (tests ?st ! Suc 0)"
    by (simp add: example_defs needs_bootloader_apps_def)
  have prev: "status (last (results ?st')) \<noteq> SKIP \<or> \<not> should_reboot (tests ?st ! 0)" by simp
  from no_reboot_without_cause [OF run len res night boot prev] run night show ?thesis
    by (intro exI [of _ ?st']) (simp add: example_test_def needs_bootloader_apps_def)
qed

text \<open>
  Claim C3. For every test list and every index \<open>i\<close> that is not the last one: when the
  result of test \<open>i\<close> is SKIP (so it is not FAIL), nightly mode is off and the next
  descriptor has no non-empty bootloader \<open>apps\<close>, then after the iteration the flag of the
  next descriptor equals the flag descriptor \<open>i\<close> had when the iteration started.
\<close>

theorem skipped_test_propagates_flag:
  assumes "loop_body ctx i st = Inr st'"
    and "Suc i < length (tests st)"
    and "status (last (results st')) = SKIP"
    and "\<not> nightly ctx"
    and "\<not> needs_bootloader_apps (tests st ! Suc i)"
  shows "should_reboot (tests st' ! Suc i) = should_reboot (tests st ! i)"
  using assms by (simp add: loop_body_reboot_flag is_fail_def is_skip_def)

theorem skipped_test_propagates_flag_witness:
  "\<exists>st'. loop_body (example_ctx True False) 0
      (start_state [example_test ''off'' True True, example_test ''next'' False False] [] 0) = Inr st'
    \<and> Suc 0 < length [example_test ''off'' True True, example_test ''next'' False False]
    \<and> status (last (results st')) = SKIP
    \<and> \<not> nightly (example_ctx True False)
    \<and> \<not> needs_bootloader_apps (example_test ''next'' False False)
    \<and> should_reboot (tests st' ! Suc 0) = should_reboot (example_test ''off'' True True)"
proof -
  let ?st = "start_state [example_test ''off'' True True, example_test ''next'' False False] [] (0::nat)"
  let ?st' = "\<lparr>tests = [example_test ''off'' True True, example_test ''next'' False True],
     fail = 0, skip = 1,
     results = [\<lparr>res_name = ''off'', msg = [], status = SKIP\<rparr>],
     calls = [], world = 0\<rparr> :: (unit, nat) run_state"
  have run: "loop_body (example_ctx True False) 0 ?st = Inr ?st'"
    by (simp add: example_defs runner_defs)
  have len: "Suc 0 < length (tests ?st)" by (simp add: start_state_def)
  have res: "status (last (results ?st')) = SKIP" by simp
  have night: "\<not> nightly (example_ctx True False)" by (simp add: example_ctx_def)
  have boot: "\<not> needs_bootloader_apps (tests ?st ! Suc 0)"
    by (simp add: example_defs needs_bootloader_apps_def)
  from skipped_test_propagates_flag [OF run len res night boot] run night show ?thesis
    by (intro exI [of _ ?st']) (simp add: example_defs needs_bootloader_apps_def)
qed

text \<open>
  Claim C4, as stated, fails: with the same result and the same next descriptor the value
  written differs between a nightly and a regular campaign, and, for a SKIP result,
  between a descriptor \<open>i\<close> with the flag set and one with the flag unset.
\<close>

theorem reboot_decision_depends_on_nightly_and_previous_flag:
  "set_reboot_flag (example_ctx True False)
       [example_test ''a'' False False, example_test ''b'' False False] 0
       \<lparr>res_name = ''a'', msg = [], status = OK\<rparr>
     = Inr [example_test ''a'' False False, example_test ''b'' False False]
   \<and> set_reboot_flag (example_ctx True True)
       [example_test ''a'' False False, example_test ''b'' False False] 0
       \<lparr>res_name = ''a'', msg = [], status = OK\<rparr>
     = Inr [example_test ''a'' False False, example_test ''b'' False True]
   \<and> set_reboot_flag (example_ctx True False)
       [example_test ''a'' True False, example_test ''b'' False False] 0
       \<lparr>res_name = ''a'', msg = [], status = SKIP\<rparr>
     = Inr [example_test ''a'' True False, example_test ''b'' False False]
   \<and> set_reboot_flag (example_ctx True False)
       [example_test ''a'' True True, example_test ''b'' False False] 0
       \<lparr>res_name = ''a'', msg = [], status = SKIP\<rparr>
     = Inr [example_test ''a'' True True, example_test ''b'' False True]"
  by (simp add: example_defs runner_defs)

text \<open>
  Claim C4, amended. The value written to the flag of the next descriptor is a function of
  the status of the result of test \<open>i\<close>, the bootloader field of the next descriptor, the
  nightly flag and, when the result is SKIP, the flag of descriptor \<open>i\<close>: two calls that
  agree on these write the same value.
\<close>

theorem reboot_decision_inputs:
  assumes "set_reboot_flag ctx ts i r = Inr ts'"
    and "set_reboot_flag ctx2 us j r2 = Inr us'"
    and "Suc i < length ts" and "Suc j < length us"
    and "status r = status r2"
    and "bootloader (ts ! Suc i) = bootloader (us ! Suc j)"
    and "nightly ctx = nightly ctx2"
    and "status r = SKIP \<longrightarrow> should_reboot (ts ! i) = should_reboot (us ! j)"
  shows "should_reboot (ts' ! Suc i) = should_reboot (us' ! Suc j)"
proof -
  from assms(1,3) have a: "should_reboot (ts' ! Suc i) =
     (is_fail r \<or> nightly ctx \<or> needs_bootloader_apps (ts ! Suc i)
        \<or> (is_skip r \<and> should_reboot (ts ! i)))"
    by (auto simp add: set_reboot_flag_next)
  from assms(2,4) have b: "should_reboot (us' ! Suc j) =
     (is_fail r2 \<or> nightly ctx2 \<or> needs_bootloader_apps (us ! Suc j)
        \<or> (is_skip r2 \<and> should_reboot (us ! j)))"
    by (auto simp add: set_reboot_flag_next)
  from assms(6) have c: "needs_bootloader_apps (ts ! Suc i) = needs_bootloader_apps (us ! Suc j)"
    by (simp add: needs_bootloader_apps_def)
  show ?thesis
    unfolding a b c using assms(5,7,8) by (auto simp add: is_fail_def is_skip_def)
qed

theorem reboot_decision_inputs_witness:
  "set_reboot_flag (example_ctx True False)
       [example_test ''a'' True True, example_test_apps ''b''] 0
       \<lparr>res_name = ''a'', msg = [], status = SKIP\<rparr>
     = Inr [example_test ''a'' True True, (example_test_apps ''b'')\<lparr>should_reboot := True\<rparr>]
   \<and> set_reboot_flag (example_ctx False False)
       [example_test ''x'' False False, example_test ''y'' False True, example_test_apps ''z''] 1
       \<lparr>res_name = ''y'', msg = ''m'', status = SKIP\<rparr>
     = Inr [example_test ''x'' False False, example_test ''y'' False True,
            (example_test_apps ''z'')\<lparr>should_reboot := True\<rparr>]
   \<and> should_reboot ([example_test ''a'' True True, (example_test_apps ''b'')\<lparr>should_reboot := True\<rparr>] ! Suc 0)
     = should_reboot ([example_test ''x'' False False, example_test ''y'' False True,
            (example_test_apps ''z'')\<lparr>should_reboot := True\<rparr>] ! Suc 1)"
proof -
  let ?ts = "[example_test ''a'' True True, example_test_apps ''b'']"
  let ?us = "[example_test ''x'' False False, example_test ''y'' False True, example_test_apps ''z'']"
  let ?r = "\<lparr>res_name = ''a'', msg = [], status = SKIP\<rparr>"
  let ?r2 = "\<lparr>res_name = ''y'', msg = ''m'', status = SKIP\<rparr>"
  have a: "set_reboot_flag (example_ctx True False) ?ts 0 ?r
     = Inr [example_test ''a'' True True, (example_test_apps ''b'')\<lparr>should_reboot := True\<rparr>]"
    by (simp add: example_defs runner_defs)
  have b: "set_reboot_flag (example_ctx False False) ?us 1 ?r2
     = Inr [example_test ''x'' False False, example_test ''y'' False True,
            (example_test_apps ''z'')\<lparr>should_reboot := True\<rparr>]"
    by (simp add: example_defs runner_defs)
  have h3: "Suc 0 < length ?ts" by simp
  have h4: "Suc 1 < length ?us" by simp
  have h5: "status ?r = status ?r2" by simp
  have h6: "bootloader (?ts ! Suc 0) = bootloader (?us ! Suc 1)"
    by (simp add: example_test_apps_def)
  have h7: "nightly (example_ctx True False) = nightly (example_ctx False False)"
    by (simp add: example_ctx_def)
  have h8: "status ?r = SKIP \<longrightarrow> should_reboot (?ts ! 0) = should_reboot (?us ! 1)"
    by (simp add: example_test_def)
  from reboot_decision_inputs [OF a b h3 h4 h5 h6 h7 h8] a b show ?thesis
    by simp
qed

text \<open>
  Claim C9. The iteration for test \<open>i\<close> leaves the length of the list and every
  descriptor other than the next one as they were, changes at most the field
  \<open>should_reboot\<close> of the next one, and changes nothing when \<open>i\<close> is the last index. Taken
  at another index \<open>k\<close>, the same statement says that the iteration \<open>k\<close> does not write
  descriptor \<open>i + 1\<close>, and no iteration writes descriptor \<open>0\<close>.
\<close>

theorem reboot_update_writes_only_next_flag:
  assumes "loop_body ctx i st = Inr st'"
  shows "length (tests st') = length (tests st)
    \<and> (\<forall>j < length (tests st). j \<noteq> Suc i \<longrightarrow> tests st' ! j = tests st ! j)
    \<and> (Suc i < length (tests st) \<longrightarrow>
         (\<exists>b. tests st' ! Suc i = (tests st ! Suc i)\<lparr>should_reboot := b\<rparr>))
    \<and> (Suc i = length (tests st) \<longrightarrow> tests st' = tests st)"
proof -
  have "tests st' = tests st" if "Suc i = length (tests st)"
  proof (rule nth_equalityI)
    show "length (tests st') = length (tests st)" using assms by (rule loop_body_length)
    fix j assume "j < length (tests st')"
    with that have "j \<noteq> Suc i" by (simp add: loop_body_length [OF assms])
    with assms show "tests st' ! j = tests st ! j" by (rule loop_body_other)
  qed
  then show ?thesis
    using loop_body_length [OF assms] loop_body_other [OF assms]
      loop_body_same_but_flag [OF assms, of "Suc i"]
    by blast
qed

theorem reboot_update_writes_only_next_flag_witness:
  "\<exists>st'. loop_body (example_ctx True False) 1
      (start_state [example_test ''a'' False True, example_test ''failing'' False False,
                    example_test_apps ''c''] [] 0) = Inr st'
     \<and> length (tests st') = 3
     \<and> tests st' ! 0 = example_test ''a'' False True
     \<and> tests st' ! 1 = example_test ''failing'' False False
     \<and> tests st' ! 2 = (example_test_apps ''c'')\<lparr>should_reboot := True\<rparr>"
proof -
  let ?st = "start_state [example_test ''a'' False True, example_test ''failing'' False False,
                    example_test_apps ''c''] [] (0::nat)"
  let ?st' = "\<lparr>tests = [example_test ''a'' False True, example_test ''failing'' False False,
                    (example_test_apps ''c'')\<lparr>should_reboot := True\<rparr>],
     fail = 1, skip = 0,
     results = [\<lparr>res_name = ''failing'', msg = ''assertion'', status = FAIL\<rparr>],
     calls = [BuildTest (example_test ''failing'' False False),
              HarnessCall (example_test ''failing'' False False)],
     world = Suc 0\<rparr>"
  have run: "loop_body (example_ctx True False) 1 ?st = Inr ?st'"
    by (simp add: example_defs runner_defs)
  from reboot_update_writes_only_next_flag [OF run] run show ?thesis
    by (intro exI [of _ ?st']) (simp add: start_state_def)
qed

section \<open>The whole campaign\<close>

text \<open>
  The counters returned by the loop are the numbers of FAIL and of SKIP results printed,
  and every iteration prints one result.
\<close>

lemma run_loop_counts:
  assumes "run_loop ctx idxs st = Inr st'"
    and "fail st = length (filter is_fail (results st))"
    and "skip st = length (filter is_skip (results st))"
  shows "fail st' = length (filter is_fail (results st'))
    \<and> skip st' = length (filter is_skip (results st'))
    \<and> length (results st') = length (results st) + length idxs
    \<and> length (tests st') = length (tests st)"
  using assms
proof (induction idxs arbitrary: st)
  case Nil
  then show ?case by simp
next
  case (Cons i idxs)
  from Cons.prems(1) obtain st1 where
    step: "loop_body ctx i st = Inr st1" and rest: "run_loop ctx idxs st1 = Inr st'"
    by (cases "loop_body ctx i st") auto
  from step obtain r where res: "results st1 = results st @ [r]"
    and f: "fail st1 = (if is_fail r then Suc (fail st) else fail st)"
    and s: "skip st1 = (if \<not> is_fail r \<and> is_skip r then Suc (skip st) else skip st)"
    by (rule loop_body_Inr)
  have excl: "is_skip r \<Longrightarrow> \<not> is_fail r" by (simp add: is_fail_def is_skip_def)
  have f1: "fail st1 = length (filter is_fail (results st1))"
    using f res Cons.prems(2) by simp
  have s1: "skip st1 = length (filter is_skip (results st1))"
    using s res Cons.prems(3) excl by auto
  from Cons.IH [OF rest f1 s1] res loop_body_length [OF step] show ?case by simp
qed

lemmas search_defs = search_for_tests_def is_dir_def is_file_def suffix_def final_component_def
  example_fs_def example_env_def parse_tests_def

text \<open>
  Claim C5. When \<open>run\<close> returns, it returns True exactly when the number of FAIL results
  is zero; in particular it returns True when every result is OK or SKIP, and with testing
  requested there is one result per descriptor. When testing is not requested and parsing
  and the flashing asked for (if any) went through, \<open>run\<close> returns True from the start
  state: no result, no call of \<open>build_test\<close> or of a harness.
\<close>

theorem run_succeeds_iff_no_failure:
  fixes ctx :: "('a, 'w) Context"
  shows "(run env ctx test_paths w = Inr c \<longrightarrow>
       (success c \<longleftrightarrow> length (filter is_fail (results (final c))) = 0)
     \<and> ((\<forall>r\<in>set (results (final c)). status r = OK \<or> status r = SKIP) \<longrightarrow> success c)
     \<and> (should_test ctx \<longrightarrow> length (results (final c)) = length (tests (final c))))
   \<and> (\<not> should_test ctx \<and> parse_tests env test_paths = Inr ts
        \<and> (should_flash ctx \<longrightarrow> flash_dut (target ctx) w = (Flashed, w1)) \<longrightarrow>
        run env ctx test_paths w
          = Inr \<lparr>success = True, summary = None,
                 final = start_state ts (if should_flash ctx then [FlashDut] else [])
                           (if should_flash ctx then w1 else w)\<rparr>)"
proof (intro conjI impI)
  assume ret: "run env ctx test_paths w = Inr c"
  have key: "(success c \<longleftrightarrow> filter is_fail (results (final c)) = [])
      \<and> (should_test ctx \<longrightarrow> length (results (final c)) = length (tests (final c)))"
  proof (cases "should_test ctx")
    case False
    with ret show ?thesis
      by (auto simp add: run_def start_state_def split: sum.splits if_splits prod.splits)
  next
    case True
    with ret obtain ts cs v st where rt: "run_tests ctx ts cs v = Inr st"
      and c: "c = \<lparr>success = (int (fail st) = 0),
                   summary = Some (int (length ts), int (length ts) - int (fail st) - int (skip st),
                                   int (fail st), int (skip st)),
                   final = st\<rparr>"
      by (auto simp add: run_def Let_def split: sum.splits if_splits prod.splits)
    from rt have "run_loop ctx [0..<length ts] (start_state ts cs v) = Inr st"
      by (simp add: run_tests_def)
    from run_loop_counts [OF this] have "fail st = length (filter is_fail (results st))"
      and "length (results st) = length ts" and "length (tests st) = length ts"
      by (simp_all add: start_state_def)
    with c show ?thesis by simp
  qed
  from key show "success c \<longleftrightarrow> length (filter is_fail (results (final c))) = 0" by simp
  from key show "should_test ctx \<Longrightarrow> length (results (final c)) = length (tests (final c))"
    by simp
  show "success c" if "\<forall>r\<in>set (results (final c)). status r = OK \<or> status r = SKIP"
  proof -
    from that have "filter is_fail (results (final c)) = []"
      by (auto simp add: filter_empty_conv is_fail_def)
    with key show ?thesis by simp
  qed
next
  assume "\<not> should_test ctx \<and> parse_tests env test_paths = Inr ts
        \<and> (should_flash ctx \<longrightarrow> flash_dut (target ctx) w = (Flashed, w1))"
  then show "run env ctx test_paths w
          = Inr \<lparr>success = True, summary = None,
                 final = start_state ts (if should_flash ctx then [FlashDut] else [])
                           (if should_flash ctx then w1 else w)\<rparr>"
    by (simp add: run_def flash_def)
qed

theorem run_succeeds_iff_no_failure_witness:
  "(\<exists>c. run example_env (example_ctx True False) [''libc/test.yml''] 0 = Inr c
       \<and> \<not> success c \<and> length (filter is_fail (results (final c))) = 1
       \<and> summary c = Some (2, 0, 1, 1))
   \<and> (\<exists>c. run example_env (example_ctx True False) [''empty'', ''psh''] 0 = Inl c)
   \<and> (\<exists>c. run example_env (example_ctx True False) [''psh''] 0 = Inr c
       \<and> success c \<and> length (filter is_fail (results (final c))) = 0
       \<and> length (results (final c)) = 2)
   \<and> run example_env (example_ctx False False) [''libc/test.yml''] 7
       = Inr \<lparr>success = True, summary = None,
              final = start_state [example_test ''failing'' False True, example_test ''off'' True False]
                        [FlashDut] 0\<rparr>"
proof -
  let ?c1 = "\<lparr>success = False, summary = Some (2, 0, 1, 1),
       final = \<lparr>tests = [example_test ''failing'' False True, example_test ''off'' True True],
                fail = 1, skip = 1,
                results = [\<lparr>res_name = ''failing'', msg = ''assertion'', status = FAIL\<rparr>,
                           \<lparr>res_name = ''off'', msg = [], status = SKIP\<rparr>],
                calls = [FlashDut, BuildTest (example_test ''failing'' False True),
                         HarnessCall (example_test ''failing'' False True)],
                world = Suc 0\<rparr>\<rparr> :: (unit, nat) campaign"
  let ?c2 = "\<lparr>success = True, summary = Some (2, 2, 0, 0),
       final = \<lparr>tests = [example_test ''psh/test.yaml'' False True,
                         example_test ''psh/login/test_login.yaml'' False False],
                fail = 0, skip = 0,
                results = [\<lparr>res_name = ''psh/test.yaml'', msg = [], status = OK\<rparr>,
                           \<lparr>res_name = ''psh/login/test_login.yaml'', msg = [], status = OK\<rparr>],
                calls = [FlashDut, BuildTest (example_test ''psh/test.yaml'' False True),
                         HarnessCall (example_test ''psh/test.yaml'' False True),
                         BuildTest (example_test ''psh/login/test_login.yaml'' False False),
                         HarnessCall (example_test ''psh/login/test_login.yaml'' False False)],
                world = Suc (Suc 0)\<rparr>\<rparr> :: (unit, nat) campaign"
  have p1: "parse_tests example_env [''libc/test.yml'']
      = Inr [example_test ''failing'' False True, example_test ''off'' True False]"
    by (simp add: search_defs)
  have p2: "parse_tests example_env [''psh'']
      = Inr [example_test ''psh/test.yaml'' False True,
             example_test ''psh/login/test_login.yaml'' False True]"
    by (simp add: search_defs)
  have p3: "\<exists>e. parse_tests example_env [''empty'', ''psh''] = Inl e"
    by (simp add: search_defs)
  have r1: "run example_env (example_ctx True False) [''libc/test.yml''] 0 = Inr ?c1"
    by (simp add: run_def p1 flash_def run_tests_def example_defs runner_defs)
  have r2: "run example_env (example_ctx True False) [''psh''] 0 = Inr ?c2"
    by (simp add: run_def p2 flash_def run_tests_def example_defs runner_defs)
  have r3: "\<exists>e. run example_env (example_ctx True False) [''empty'', ''psh''] 0 = Inl e"
    using p3 by (auto simp add: run_def)
  have off: "\<not> should_test (example_ctx False False) \<and> parse_tests example_env [''libc/test.yml'']
        = Inr [example_test ''failing'' False True, example_test ''off'' True False]
      \<and> (should_flash (example_ctx False False)
          \<longrightarrow> flash_dut (target (example_ctx False False)) 7 = (Flashed, 0))"
    by (simp add: p1 example_defs)
  from run_succeeds_iff_no_failure [of example_env "example_ctx True False" "[''libc/test.yml'']" 0 ?c1] r1
  have a: "success ?c1 \<longleftrightarrow> length (filter is_fail (results (final ?c1))) = 0" by blast
  from run_succeeds_iff_no_failure [of example_env "example_ctx True False" "[''psh'']" 0 ?c2] r2
  have b: "success ?c2 \<longleftrightarrow> length (filter is_fail (results (final ?c2))) = 0" by blast
  from run_succeeds_iff_no_failure [of example_env "example_ctx False False" "[''libc/test.yml'']" 7
      _ "[example_test ''failing'' False True, example_test ''off'' True False]" 0] off
  have c: "run example_env (example_ctx False False) [''libc/test.yml''] 7
       = Inr \<lparr>success = True, summary = None,
              final = start_state [example_test ''failing'' False True, example_test ''off'' True False]
                        [FlashDut] 0\<rparr>"
    by (simp add: example_ctx_def)
  have "\<exists>c. run example_env (example_ctx True False) [''libc/test.yml''] 0 = Inr c
       \<and> \<not> success c \<and> length (filter is_fail (results (final c))) = 1
       \<and> summary c = Some (2, 0, 1, 1)"
    using r1 a by (intro exI [of _ ?c1]) (simp add: is_fail_def)
  moreover have "\<exists>c. run example_env (example_ctx True False) [''psh''] 0 = Inr c
       \<and> success c \<and> length (filter is_fail (results (final c))) = 0
       \<and> length (results (final c)) = 2"
    using r2 b by (intro exI [of _ ?c2]) (simp add: is_fail_def)
  ultimately show ?thesis using r3 c by blast
qed

section \<open>Skipped tests and harness errors\<close>

lemma execute_test_ignored:
  "ignore t \<Longrightarrow> execute_test ctx t st = Inr (\<lparr>res_name = name t, msg = [], status = SKIP\<rparr>, st)"
  by (simp add: execute_test_def new_TestResult_def result_skip_def)

lemma execute_test_harness_error:
  assumes "\<not> ignore t"
    and "build_test (target ctx) t (world st) = (Some h, w1)"
    and "h w1 = (Raises_HarnessError m, w2)"
  shows "execute_test ctx t st =
     Inr (\<lparr>res_name = name t, msg = m, status = FAIL\<rparr>,
          st\<lparr>calls := calls st @ [BuildTest t, HarnessCall t], world := w2\<rparr>)"
  using assms by (simp add: execute_test_def new_TestResult_def result_fail_def)

lemma execute_test_calls:
  assumes "execute_test ctx t st = Inr (r, st1)"
  shows "calls st1 = calls st @ (if ignore t then [] else [BuildTest t, HarnessCall t])"
  using assms
  unfolding execute_test_def Let_def
  by (simp split: if_splits prod.splits option.splits harness_outcome.splits, auto)

text \<open>The iteration for an ignored descriptor, and the one whose harness raises \<^verbatim>\<open>HarnessError\<close>.\<close>

lemma loop_body_ignored:
  assumes "idx < length (tests st)" and "ignore (tests st ! idx)"
  shows "\<exists>st'. loop_body ctx idx st = Inr st'
    \<and> calls st' = calls st \<and> world st' = world st
    \<and> results st' = results st @ [\<lparr>res_name = name (tests st ! idx), msg = [], status = SKIP\<rparr>]
    \<and> skip st' = Suc (skip st) \<and> fail st' = fail st"
proof -
  let ?r = "\<lparr>res_name = name (tests st ! idx), msg = [], status = SKIP\<rparr>"
  from assms(2) have ex: "execute_test ctx (tests st ! idx) st = Inr (?r, st)"
    by (rule execute_test_ignored)
  from loop_body_ok [OF assms(1) ex] obtain st' where run: "loop_body ctx idx st = Inr st'" ..
  from run obtain r st1 where ex': "execute_test ctx (tests st ! idx) st = Inr (r, st1)"
    and facts: "results st' = results st @ [r]" "calls st' = calls st1" "world st' = world st1"
      "fail st' = (if is_fail r then Suc (fail st) else fail st)"
      "skip st' = (if \<not> is_fail r \<and> is_skip r then Suc (skip st) else skip st)"
    by (rule loop_body_Inr)
  from ex ex' have "r = ?r" and "st1 = st" by simp_all
  with facts run show ?thesis by (simp add: is_fail_def is_skip_def)
qed

lemma loop_body_harness_error:
  assumes "idx < length (tests st)"
    and "\<not> ignore (tests st ! idx)"
    and "build_test (target ctx) (tests st ! idx) (world st) = (Some h, w1)"
    and "h w1 = (Raises_HarnessError m, w2)"
  shows "\<exists>st'. loop_body ctx idx st = Inr st'
      \<and> results st' = results st @ [\<lparr>res_name = name (tests st ! idx), msg = m, status = FAIL\<rparr>]
      \<and> calls st' = calls st @ [BuildTest (tests st ! idx), HarnessCall (tests st ! idx)]
      \<and> world st' = w2
      \<and> fail st' = Suc (fail st) \<and> skip st' = skip st"
proof -
  let ?r = "\<lparr>res_name = name (tests st ! idx), msg = m, status = FAIL\<rparr>"
  let ?st1 = "st\<lparr>calls := calls st @ [BuildTest (tests st ! idx), HarnessCall (tests st ! idx)],
                 world := w2\<rparr>"
  from assms(2-4) have ex: "execute_test ctx (tests st ! idx) st = Inr (?r, ?st1)"
    by (rule execute_test_harness_error)
  from loop_body_ok [OF assms(1) ex] obtain st' where run: "loop_body ctx idx st = Inr st'" ..
  from run obtain r st1 where ex': "execute_test ctx (tests st ! idx) st = Inr (r, st1)"
    and facts: "results st' = results st @ [r]" "calls st' = calls st1" "world st' = world st1"
      "fail st' = (if is_fail r then Suc (fail st) else fail st)"
      "skip st' = (if \<not> is_fail r \<and> is_skip r then Suc (skip st) else skip st)"
    by (rule loop_body_Inr)
  from ex ex' have "r = ?r" and "st1 = ?st1" by simp_all
  with facts run show ?thesis by (simp add: is_fail_def is_skip_def)
qed

text \<open>
  With a target that always builds a harness, and harnesses that raise nothing but
  \<^verbatim>\<open>HarnessError\<close>, every iteration over an index of the list completes.
\<close>

lemma run_loop_completes:
  assumes good: "\<And>t w. \<exists>h w1. build_test (target ctx) t w = (Some h, w1)
        \<and> (\<forall>e. fst (h w1) \<noteq> Raises_Other e)"
    and "\<forall>i\<in>set idxs. i < length (tests st)"
  shows "\<exists>st'. run_loop ctx idxs st = Inr st'
    \<and> length (results st') = length (results st) + length idxs"
  using assms(2)
proof (induction idxs arbitrary: st)
  case Nil
  show ?case by simp
next
  case (Cons i idxs)
  then have len: "i < length (tests st)" by simp
  have "\<exists>r st1. execute_test ctx (tests st ! i) st = Inr (r, st1)"
  proof (cases "ignore (tests st ! i)")
    case True
    then show ?thesis by (simp add: execute_test_ignored)
  next
    case False
    from good [of "tests st ! i" "world st"] obtain h w1 where
      b: "build_test (target ctx) (tests st ! i) (world st) = (Some h, w1)"
      and h: "\<forall>e. fst (h w1) \<noteq> Raises_Other e" by blast
    obtain out w2 where o: "h w1 = (out, w2)" by (cases "h w1")
    with h have "\<forall>e. out \<noteq> Raises_Other e" by simp
    with False b o show ?thesis
      by (cases out) (auto simp add: execute_test_def split: option.splits)
  qed
  then obtain r st1 where ex: "execute_test ctx (tests st ! i) st = Inr (r, st1)" by blast
  from loop_body_ok [OF len ex] obtain st2 where step: "loop_body ctx i st = Inr st2" ..
  from step obtain r' where res: "results st2 = results st @ [r']"
    by (rule loop_body_Inr)
  from Cons.prems have "\<forall>j\<in>set idxs. j < length (tests st2)"
    by (simp add: loop_body_length [OF step])
  from Cons.IH [OF this] obtain st' where
    "run_loop ctx idxs st2 = Inr st'"
    "length (results st') = length (results st2) + length idxs" by blast
  with step res show ?case by simp
qed

text \<open>
  The loop only appends to the two logs, one result per iteration, and the calls it adds
  are calls for descriptors that are not ignored.
\<close>

lemma run_loop_append:
  "run_loop ctx (xs @ ys) st =
     (case run_loop ctx xs st of Inl e \<Rightarrow> Inl e | Inr st1 \<Rightarrow> run_loop ctx ys st1)"
  by (induction xs arbitrary: st) (auto split: sum.splits)

lemma loop_body_grows:
  assumes "loop_body ctx i st = Inr st'"
  shows "\<exists>r new. results st' = results st @ [r] \<and> calls st' = calls st @ new
     \<and> (\<forall>c\<in>set new. \<exists>t. (c = BuildTest t \<or> c = HarnessCall t) \<and> \<not> ignore t)"
proof -
  from assms obtain r st1 where ex: "execute_test ctx (tests st ! i) st = Inr (r, st1)"
    and res: "results st' = results st @ [r]" and c: "calls st' = calls st1"
    by (rule loop_body_Inr)
  let ?new = "if ignore (tests st ! i) then []
              else [BuildTest (tests st ! i), HarnessCall (tests st ! i)]"
  from execute_test_calls [OF ex] c have "calls st' = calls st @ ?new" by simp
  moreover have "\<forall>c\<in>set ?new. \<exists>t. (c = BuildTest t \<or> c = HarnessCall t) \<and> \<not> ignore t"
    by auto
  ultimately show ?thesis using res by blast
qed

lemma run_loop_grows:
  assumes "run_loop ctx idxs st = Inr st'"
  shows "\<exists>rs new. results st' = results st @ rs \<and> length rs = length idxs
     \<and> calls st' = calls st @ new
     \<and> (\<forall>c\<in>set new. \<exists>t. (c = BuildTest t \<or> c = HarnessCall t) \<and> \<not> ignore t)"
  using assms
proof (induction idxs arbitrary: st)
  case Nil
  then show ?case by simp
next
  case (Cons i idxs)
  from Cons.prems obtain st1 where
    step: "loop_body ctx i st = Inr st1" and rest: "run_loop ctx idxs st1 = Inr st'"
    by (cases "loop_body ctx i st") auto
  from loop_body_grows [OF step] obtain r new1 where
    a: "results st1 = results st @ [r]" "calls st1 = calls st @ new1"
       "\<forall>c\<in>set new1. \<exists>t. (c = BuildTest t \<or> c = HarnessCall t) \<and> \<not> ignore t"
    by blast
  from Cons.IH [OF rest] obtain rs new2 where
    b: "results st' = results st1 @ rs" "length rs = length idxs" "calls st' = calls st1 @ new2"
       "\<forall>c\<in>set new2. \<exists>t. (c = BuildTest t \<or> c = HarnessCall t) \<and> \<not> ignore t"
    by blast
  have "results st' = results st @ (r # rs)" using a b by simp
  moreover have "length (r # rs) = length (i # idxs)" using b by simp
  moreover have "calls st' = calls st @ (new1 @ new2)" using a b by simp
  moreover have "\<forall>c\<in>set (new1 @ new2). \<exists>t. (c = BuildTest t \<or> c = HarnessCall t) \<and> \<not> ignore t"
    using a b by auto
  ultimately show ?case by blast
qed

text \<open>
  A call of \<open>run_tests\<close> that returns has gone through the iteration for every index
  \<open>i\<close> of the list: first the indices before \<open>i\<close>, then \<open>i\<close>, then the indices after it.
\<close>

lemma upt_split3:
  assumes "i < n"
  shows "[0..<n] = [0..<i] @ i # [Suc i..<n]"
  using assms by (metis upt_conv_Cons upt_add_eq_append le0 less_imp_le_nat add_0 le_add_diff_inverse)

lemma run_tests_through:
  assumes "run_tests ctx ts cs w = Inr st" and "i < length ts"
  obtains sa sb where "run_loop ctx [0..<i] (start_state ts cs w) = Inr sa"
    and "loop_body ctx i sa = Inr sb"
    and "run_loop ctx [Suc i..<length ts] sb = Inr st"
proof -
  from assms have all: "run_loop ctx ([0..<i] @ i # [Suc i..<length ts]) (start_state ts cs w) = Inr st"
    by (simp add: run_tests_def upt_split3 [symmetric])
  then obtain sa where a: "run_loop ctx [0..<i] (start_state ts cs w) = Inr sa"
    and rest: "run_loop ctx (i # [Suc i..<length ts]) sa = Inr st"
    by (auto simp add: run_loop_append split: sum.splits)
  from rest obtain sb where b: "loop_body ctx i sa = Inr sb"
    and c: "run_loop ctx [Suc i..<length ts] sb = Inr st"
    by (cases "loop_body ctx i sa") auto
  from a b c show thesis by (rule that)
qed

lemma run_tests_continue:
  assumes "run_loop ctx [0..<i] (start_state ts cs w) = Inr sa"
    and "loop_body ctx i sa = Inr sb" and "i < length ts"
  shows "run_tests ctx ts cs w = run_loop ctx [Suc i..<length ts] sb"
proof -
  have "run_tests ctx ts cs w
      = run_loop ctx ([0..<i] @ i # [Suc i..<length ts]) (start_state ts cs w)"
    using assms(3) by (simp add: run_tests_def upt_split3 [symmetric])
  with assms(1,2) show ?thesis by (simp add: run_loop_append)
qed

lemma prefix_state:
  assumes "run_loop ctx [0..<i] (start_state ts cs w) = Inr sa"
  shows "length (results sa) = i" and "length (tests sa) = length ts"
    and "\<exists>b. tests sa ! i = (ts ! i)\<lparr>should_reboot := b\<rparr>"
    and "\<exists>new. calls sa = cs @ new
           \<and> (\<forall>c\<in>set new. \<exists>t. (c = BuildTest t \<or> c = HarnessCall t) \<and> \<not> ignore t)"
proof -
  from run_loop_counts [OF assms] show "length (results sa) = i" and "length (tests sa) = length ts"
    by (simp_all add: start_state_def)
  from run_loop_frame [OF assms, of i]
  show "\<exists>b. tests sa ! i = (ts ! i)\<lparr>should_reboot := b\<rparr>"
    by (simp add: start_state_def)
  from run_loop_grows [OF assms]
  show "\<exists>new. calls sa = cs @ new
           \<and> (\<forall>c\<in>set new. \<exists>t. (c = BuildTest t \<or> c = HarnessCall t) \<and> \<not> ignore t)"
    by (simp add: start_state_def)
qed

lemma result_of_iteration:
  assumes "length (results sa) = i" and "results sb = results sa @ [r]"
    and "run_loop ctx idxs sb = Inr st"
  shows "results st ! i = r"
proof -
  from run_loop_grows [OF assms(3)] obtain rs where "results st = results sb @ rs" by blast
  with assms(1,2) show ?thesis by (simp add: nth_append)
qed

lemma run_tests_counts:
  assumes "run_tests ctx ts cs w = Inr st"
  shows "length (results st) = length ts"
    and "skip st = length (filter is_skip (results st))"
    and "fail st = length (filter is_fail (results st))"
proof -
  from assms have "run_loop ctx [0..<length ts] (start_state ts cs w) = Inr st"
    by (simp add: run_tests_def)
  from run_loop_counts [OF this]
  show "length (results st) = length ts"
    and "skip st = length (filter is_skip (results st))"
    and "fail st = length (filter is_fail (results st))"
    by (simp_all add: start_state_def)
qed

text \<open>
  Claim C6. Let \<open>run_tests\<close> return for a list in which descriptor \<open>i\<close> has \<open>ignore\<close> set.
  The call went through the iteration for \<open>i\<close>, and that iteration made no call of
  \<open>build_test\<close> or of a harness (the log of calls and the device are as before it), added
  one to the skip counter and nothing to the failure counter. In the final state there is
  one result per descriptor, the result of descriptor \<open>i\<close> is SKIP, the counters returned
  are the numbers of SKIP and of FAIL results, and no call made by \<open>run_tests\<close> is a call
  of \<open>build_test\<close> or of a harness for descriptor \<open>i\<close>, whatever its reboot flag was.
\<close>

theorem ignored_test_is_skipped_unbuilt:
  assumes "run_tests ctx ts cs w = Inr st" and "i < length ts" and "ignore (ts ! i)"
  shows "(\<exists>sa sb. run_loop ctx [0..<i] (start_state ts cs w) = Inr sa
            \<and> loop_body ctx i sa = Inr sb
            \<and> run_loop ctx [Suc i..<length ts] sb = Inr st
            \<and> calls sb = calls sa \<and> world sb = world sa
            \<and> skip sb = Suc (skip sa) \<and> fail sb = fail sa)
    \<and> length (results st) = length ts
    \<and> results st ! i = \<lparr>res_name = name (ts ! i), msg = [], status = SKIP\<rparr>
    \<and> skip st = length (filter is_skip (results st))
    \<and> fail st = length (filter is_fail (results st))
    \<and> (\<exists>new. calls st = cs @ new
          \<and> (\<forall>b. BuildTest ((ts ! i)\<lparr>should_reboot := b\<rparr>) \<notin> set new
                 \<and> HarnessCall ((ts ! i)\<lparr>should_reboot := b\<rparr>) \<notin> set new))"
proof -
  from assms(1,2) obtain sa sb where pre: "run_loop ctx [0..<i] (start_state ts cs w) = Inr sa"
    and step: "loop_body ctx i sa = Inr sb"
    and rest: "run_loop ctx [Suc i..<length ts] sb = Inr st"
    by (rule run_tests_through)
  note ps = prefix_state [OF pre]
  from ps(3) obtain b where cur: "tests sa ! i = (ts ! i)\<lparr>should_reboot := b\<rparr>" ..
  with assms(3) have ign: "ignore (tests sa ! i)" and nm: "name (tests sa ! i) = name (ts ! i)"
    by simp_all
  from assms(2) ps(2) have len: "i < length (tests sa)" by simp
  from loop_body_ignored [OF len ign, of ctx] step nm
  have it: "calls sb = calls sa" "world sb = world sa" "skip sb = Suc (skip sa)" "fail sb = fail sa"
    and res: "results sb = results sa @ [\<lparr>res_name = name (ts ! i), msg = [], status = SKIP\<rparr>]"
    by auto
  from result_of_iteration [OF ps(1) res rest]
  have at: "results st ! i = \<lparr>res_name = name (ts ! i), msg = [], status = SKIP\<rparr>" .
  have "run_loop ctx [0..<length ts] (start_state ts cs w) = Inr st"
    using assms(1) by (simp add: run_tests_def)
  from run_loop_grows [OF this] obtain new where new: "calls st = cs @ new"
    and only: "\<forall>c\<in>set new. \<exists>t. (c = BuildTest t \<or> c = HarnessCall t) \<and> \<not> ignore t"
    by (auto simp add: start_state_def)
  have "BuildTest ((ts ! i)\<lparr>should_reboot := b\<rparr>) \<notin> set new
      \<and> HarnessCall ((ts ! i)\<lparr>should_reboot := b\<rparr>) \<notin> set new" for b
    using only assms(3) by fastforce
  with new have cl: "\<exists>new. calls st = cs @ new
          \<and> (\<forall>b. BuildTest ((ts ! i)\<lparr>should_reboot := b\<rparr>) \<notin> set new
                 \<and> HarnessCall ((ts ! i)\<lparr>should_reboot := b\<rparr>) \<notin> set new)"
    by blast
  from pre step rest it have "\<exists>sa sb. run_loop ctx [0..<i] (start_state ts cs w) = Inr sa
            \<and> loop_body ctx i sa = Inr sb
            \<and> run_loop ctx [Suc i..<length ts] sb = Inr st
            \<and> calls sb = calls sa \<and> world sb = world sa
            \<and> skip sb = Suc (skip sa) \<and> fail sb = fail sa"
    by blast
  with at cl run_tests_counts [OF assms(1)] show ?thesis by blast
qed

theorem ignored_test_is_skipped_unbuilt_witness:
  "\<exists>st. run_tests (example_ctx True False)
        [example_test ''plain'' False True, example_test ''off'' True False,
         example_test ''next'' False True] [] 0 = Inr st
      \<and> Suc 0 < length [example_test ''plain'' False True, example_test ''off'' True False,
                        example_test ''next'' False True]
      \<and> ignore (example_test ''off'' True False)
      \<and> length (results st) = 3
      \<and> results st ! Suc 0 = \<lparr>res_name = ''off'', msg = [], status = SKIP\<rparr>
      \<and> skip st = 1 \<and> fail st = 0
      \<and> calls st = [BuildTest (example_test ''plain'' False True),
                    HarnessCall (example_test ''plain'' False True),
                    BuildTest (example_test ''next'' False False),
                    HarnessCall (example_test ''next'' False False)]"
proof -
  let ?ctx = "example_ctx True False"
  let ?ts = "[example_test ''plain'' False True, example_test ''off'' True False,
              example_test ''next'' False True]"
  let ?st = "\<lparr>tests = [example_test ''plain'' False True, example_test ''off'' True False,
                       example_test ''next'' False False],
              fail = 0, skip = 1,
              results = [\<lparr>res_name = ''plain'', msg = [], status = OK\<rparr>,
                         \<lparr>res_name = ''off'', msg = [], status = SKIP\<rparr>,
                         \<lparr>res_name = ''next'', msg = [], status = OK\<rparr>],
              calls = [BuildTest (example_test ''plain'' False True),
                       HarnessCall (example_test ''plain'' False True),
                       BuildTest (example_test ''next'' False False),
                       HarnessCall (example_test ''next'' False False)],
              world = Suc (Suc 0)\<rparr>"
  have run: "run_tests ?ctx ?ts [] 0 = Inr ?st"
    by (simp add: run_tests_def example_defs runner_defs)
  have len: "Suc 0 < length ?ts" by simp
  have ign: "ignore (?ts ! Suc 0)" by (simp add: example_test_def)
  from ignored_test_is_skipped_unbuilt [OF run len ign]
  have "length (results ?st) = length ?ts
      \<and> results ?st ! Suc 0 = \<lparr>res_name = name (?ts ! Suc 0), msg = [], status = SKIP\<rparr>
      \<and> skip ?st = length (filter is_skip (results ?st))
      \<and> fail ?st = length (filter is_fail (results ?st))"
    by blast
  with run ign show ?thesis
    by (intro exI [of _ ?st]) (simp add: example_test_def is_skip_def is_fail_def)
qed

text \<open>
  Claim C7. Let \<open>run_tests\<close> have processed the descriptors before \<open>i\<close> and reached the
  state \<open>sa\<close>, and let the harness built for descriptor \<open>i\<close> there raise \<^verbatim>\<open>HarnessError\<close>
  with the text \<open>m\<close>. Then the iteration for \<open>i\<close> completes, its result is FAIL with the
  message \<open>m\<close> and is counted as a failure, and what \<open>run_tests\<close> does is what the loop
  does over all the descriptors after \<open>i\<close> from the state reached. Whenever \<open>run_tests\<close>
  returns, there is one result per descriptor and the result of descriptor \<open>i\<close> is that
  FAIL result; and \<open>run_tests\<close> does return when the target always builds a harness and
  the harnesses raise nothing but \<^verbatim>\<open>HarnessError\<close>.
\<close>

theorem harness_error_is_recorded_and_loop_continues:
  fixes ctx :: "('a, 'w) Context"
  assumes "run_loop ctx [0..<i] (start_state ts cs w) = Inr sa"
    and "i < length ts"
    and "\<not> ignore (ts ! i)"
    and "build_test (target ctx) (tests sa ! i) (world sa) = (Some h, w1)"
    and "h w1 = (Raises_HarnessError m, w2)"
  shows "\<exists>sb. loop_body ctx i sa = Inr sb
      \<and> results sb = results sa @ [\<lparr>res_name = name (ts ! i), msg = m, status = FAIL\<rparr>]
      \<and> fail sb = Suc (fail sa) \<and> skip sb = skip sa
      \<and> run_tests ctx ts cs w = run_loop ctx [Suc i..<length ts] sb
      \<and> (\<forall>st. run_tests ctx ts cs w = Inr st \<longrightarrow>
            length (results st) = length ts
            \<and> results st ! i = \<lparr>res_name = name (ts ! i), msg = m, status = FAIL\<rparr>
            \<and> fail st = length (filter is_fail (results st)))
      \<and> ((\<forall>t v. \<exists>g v1. build_test (target ctx) t v = (Some g, v1)
                    \<and> (\<forall>e. fst (g v1) \<noteq> Raises_Other e))
           \<longrightarrow> (\<exists>st. run_tests ctx ts cs w = Inr st))"
proof -
  note ps = prefix_state [OF assms(1)]
  from ps(3) obtain b where cur: "tests sa ! i = (ts ! i)\<lparr>should_reboot := b\<rparr>" ..
  with assms(3) have ign: "\<not> ignore (tests sa ! i)" and nm: "name (tests sa ! i) = name (ts ! i)"
    by simp_all
  from assms(2) ps(2) have len: "i < length (tests sa)" by simp
  from loop_body_harness_error [OF len ign assms(4,5)] nm obtain sb where
    step: "loop_body ctx i sa = Inr sb"
    and res: "results sb = results sa @ [\<lparr>res_name = name (ts ! i), msg = m, status = FAIL\<rparr>]"
    and cnt: "fail sb = Suc (fail sa)" "skip sb = skip sa"
    by auto
  have cont: "run_tests ctx ts cs w = run_loop ctx [Suc i..<length ts] sb"
    using assms(1) step assms(2) by (rule run_tests_continue)
  have fin: "length (results st) = length ts
            \<and> results st ! i = \<lparr>res_name = name (ts ! i), msg = m, status = FAIL\<rparr>
            \<and> fail st = length (filter is_fail (results st))"
    if "run_tests ctx ts cs w = Inr st" for st
  proof -
    from that cont have "run_loop ctx [Suc i..<length ts] sb = Inr st" by simp
    from result_of_iteration [OF ps(1) res this] run_tests_counts [OF that]
    show ?thesis by simp
  qed
  have tot: "\<exists>st. run_tests ctx ts cs w = Inr st"
    if good: "\<forall>t v. \<exists>g v1. build_test (target ctx) t v = (Some g, v1)
                    \<and> (\<forall>e. fst (g v1) \<noteq> Raises_Other e)"
  proof -
    have "\<forall>j\<in>set [Suc i..<length ts]. j < length (tests sb)"
      using ps(2) loop_body_length [OF step] by simp
    with good have "\<exists>st'. run_loop ctx [Suc i..<length ts] sb = Inr st'
        \<and> length (results st') = length (results sb) + length [Suc i..<length ts]"
      by (intro run_loop_completes) blast+
    with cont show ?thesis by auto
  qed
  from step res cnt cont fin tot show ?thesis by blast
qed

theorem harness_error_is_recorded_and_loop_continues_witness:
  "\<exists>st. run_tests (example_ctx True False)
        [example_test ''plain'' False True, example_test ''broken'' False True,
         example_test ''off'' True False] [] 0 = Inr st
      \<and> Suc 0 < length [example_test ''plain'' False True, example_test ''broken'' False True,
                        example_test ''off'' True False]
      \<and> \<not> ignore (example_test ''broken'' False True)
      \<and> length (results st) = 3
      \<and> results st ! Suc 0 = \<lparr>res_name = ''broken'', msg = ''no prompt'', status = FAIL\<rparr>
      \<and> results st ! 2 = \<lparr>res_name = ''off'', msg = [], status = SKIP\<rparr>
      \<and> fail st = 1 \<and> skip st = 1"
proof -
  let ?ctx = "example_ctx True False"
  let ?ts = "[example_test ''plain'' False True, example_test ''broken'' False True,
              example_test ''off'' True False]"
  let ?sa = "\<lparr>tests = [example_test ''plain'' False True, example_test ''broken'' False False,
                       example_test ''off'' True False],
              fail = 0, skip = 0,
              results = [\<lparr>res_name = ''plain'', msg = [], status = OK\<rparr>],
              calls = [BuildTest (example_test ''plain'' False True),
                       HarnessCall (example_test ''plain'' False True)],
              world = Suc 0\<rparr>"
  let ?st = "\<lparr>tests = [example_test ''plain'' False True, example_test ''broken'' False False,
                       example_test ''off'' True True],
              fail = 1, skip = 1,
              results = [\<lparr>res_name = ''plain'', msg = [], status = OK\<rparr>,
                         \<lparr>res_name = ''broken'', msg = ''no prompt'', status = FAIL\<rparr>,
                         \<lparr>res_name = ''off'', msg = [], status = SKIP\<rparr>],
              calls = [BuildTest (example_test ''plain'' False True),
                       HarnessCall (example_test ''plain'' False True),
                       BuildTest (example_test ''broken'' False False),
                       HarnessCall (example_test ''broken'' False False)],
              world = Suc (Suc 0)\<rparr>"
  let ?h = "\<lambda>v. (Raises_HarnessError ''no prompt'', Suc v)"
  have pre: "run_loop ?ctx [0..<Suc 0] (start_state ?ts [] 0) = Inr ?sa"
    by (simp add: example_defs runner_defs)
  have len: "Suc 0 < length ?ts" by simp
  have nign: "\<not> ignore (?ts ! Suc 0)" by (simp add: example_test_def)
  have bld: "build_test (target ?ctx) (tests ?sa ! Suc 0) (world ?sa) = (Some ?h, Suc 0)"
    by (simp add: example_defs)
  have out: "?h (Suc 0) = (Raises_HarnessError ''no prompt'', Suc (Suc 0))" by simp
  have run: "run_tests ?ctx ?ts [] 0 = Inr ?st"
    by (simp add: run_tests_def example_defs runner_defs)
  from harness_error_is_recorded_and_loop_continues [OF pre len nign bld out] run
  have "length (results ?st) = length ?ts
      \<and> results ?st ! Suc 0 = \<lparr>res_name = name (?ts ! Suc 0), msg = ''no prompt'', status = FAIL\<rparr>
      \<and> fail ?st = length (filter is_fail (results ?st))"
    by blast
  with run nign show ?thesis
    by (intro exI [of _ ?st]) (simp add: example_test_def is_fail_def)
qed

section \<open>Test discovery\<close>

text \<open>
  The loop over the input paths accepts a path when it is a directory with at least one
  match or a file with one of the two extensions, and then appends its matches.
\<close>

lemma search_loop_accepts:
  assumes "\<forall>p\<in>set ps.
      (kind_of fsys p = Directory
         \<and> rglob fsys p ''test*.yaml'' @ rglob fsys p ''test*.yml'' \<noteq> [])
      \<or> (kind_of fsys p = RegularFile \<and> (suffix p = ''.yaml'' \<or> suffix p = ''.yml''))"
  shows "search_loop fsys ps acc =
     Inr (acc @ concat (map (\<lambda>p. if kind_of fsys p = Directory
                                  then rglob fsys p ''test*.yaml'' @ rglob fsys p ''test*.yml''
                                  else [p]) ps))"
  using assms
proof (induction ps arbitrary: acc)
  case Nil
  show ?case by simp
next
  case (Cons p ps)
  from Cons.prems have rest: "\<forall>q\<in>set ps.
      (kind_of fsys q = Directory
         \<and> rglob fsys q ''test*.yaml'' @ rglob fsys q ''test*.yml'' \<noteq> [])
      \<or> (kind_of fsys q = RegularFile \<and> (suffix q = ''.yaml'' \<or> suffix q = ''.yml''))"
    by simp
  from Cons.prems have here:
    "(kind_of fsys p = Directory
         \<and> rglob fsys p ''test*.yaml'' @ rglob fsys p ''test*.yml'' \<noteq> [])
      \<or> (kind_of fsys p = RegularFile \<and> (suffix p = ''.yaml'' \<or> suffix p = ''.yml''))"
    by simp
  then show ?case
  proof
    assume d: "kind_of fsys p = Directory
         \<and> rglob fsys p ''test*.yaml'' @ rglob fsys p ''test*.yml'' \<noteq> []"
    then show ?thesis
      using Cons.IH [OF rest, of "acc @ rglob fsys p ''test*.yaml'' @ rglob fsys p ''test*.yml''"]
      by (simp add: is_dir_def Let_def)
  next
    assume f: "kind_of fsys p = RegularFile \<and> (suffix p = ''.yaml'' \<or> suffix p = ''.yml'')"
    then show ?thesis
      using Cons.IH [OF rest, of "acc @ [p]"]
      by (auto simp add: is_dir_def is_file_def)
  qed
qed

lemma search_loop_rejects:
  assumes "search_loop fsys ps acc = Inr r"
  shows "\<forall>p\<in>set ps.
      (kind_of fsys p = Directory
         \<and> rglob fsys p ''test*.yaml'' @ rglob fsys p ''test*.yml'' \<noteq> [])
      \<or> (kind_of fsys p = RegularFile \<and> (suffix p = ''.yaml'' \<or> suffix p = ''.yml''))"
  using assms
proof (induction ps arbitrary: acc)
  case Nil
  show ?case by simp
next
  case (Cons p ps)
  show ?case
  proof (cases "kind_of fsys p")
    case Directory
    with Cons.prems have ne: "rglob fsys p ''test*.yaml'' @ rglob fsys p ''test*.yml'' \<noteq> []"
      and rest: "search_loop fsys ps (acc @ rglob fsys p ''test*.yaml'' @ rglob fsys p ''test*.yml'') = Inr r"
      by (auto simp add: is_dir_def Let_def split: if_splits)
    from Cons.IH [OF rest] ne Directory show ?thesis by simp
  next
    case RegularFile
    with Cons.prems have ok: "suffix p = ''.yaml'' \<or> suffix p = ''.yml''"
      and rest: "search_loop fsys ps (acc @ [p]) = Inr r"
      by (auto simp add: is_dir_def is_file_def split: if_splits)
    from Cons.IH [OF rest] ok RegularFile show ?thesis by simp
  next
    case NoSuchEntry
    with Cons.prems show ?thesis by (simp add: is_dir_def is_file_def)
  qed
qed

text \<open>
  \<open>search_for_tests\<close> raises exactly when some input path is a directory for which
  \<^verbatim>\<open>rglob\<close> yields no entry for either pattern, \<^verbatim>\<open>test*.yaml\<close> and \<^verbatim>\<open>test*.yml\<close>, or a
  file whose extension is neither \<^verbatim>\<open>.yaml\<close> nor \<^verbatim>\<open>.yml\<close>, or neither a file nor a
  directory. Otherwise it returns what \<^verbatim>\<open>rglob\<close> yields for the directories and the files
  themselves, concatenated in input order.
\<close>

lemma search_for_tests_fails_iff_no_entry:
  "((\<exists>e. search_for_tests fsys ps = Inl e) \<longleftrightarrow>
      (\<exists>p\<in>set ps.
          (kind_of fsys p = Directory
             \<and> rglob fsys p ''test*.yaml'' = [] \<and> rglob fsys p ''test*.yml'' = [])
        \<or> (kind_of fsys p = RegularFile \<and> suffix p \<noteq> ''.yaml'' \<and> suffix p \<noteq> ''.yml'')
        \<or> (kind_of fsys p \<noteq> Directory \<and> kind_of fsys p \<noteq> RegularFile)))
   \<and> ((\<forall>e. search_for_tests fsys ps \<noteq> Inl e) \<longrightarrow>
        search_for_tests fsys ps =
          Inr (concat (map (\<lambda>p. if kind_of fsys p = Directory
                                 then rglob fsys p ''test*.yaml'' @ rglob fsys p ''test*.yml''
                                 else [p]) ps)))"
proof -
  let ?good = "\<lambda>p. (kind_of fsys p = Directory
         \<and> rglob fsys p ''test*.yaml'' @ rglob fsys p ''test*.yml'' \<noteq> [])
      \<or> (kind_of fsys p = RegularFile \<and> (suffix p = ''.yaml'' \<or> suffix p = ''.yml''))"
  let ?bad = "\<lambda>p. (kind_of fsys p = Directory
             \<and> rglob fsys p ''test*.yaml'' = [] \<and> rglob fsys p ''test*.yml'' = [])
        \<or> (kind_of fsys p = RegularFile \<and> suffix p \<noteq> ''.yaml'' \<and> suffix p \<noteq> ''.yml'')
        \<or> (kind_of fsys p \<noteq> Directory \<and> kind_of fsys p \<noteq> RegularFile)"
  let ?all = "concat (map (\<lambda>p. if kind_of fsys p = Directory
                                 then rglob fsys p ''test*.yaml'' @ rglob fsys p ''test*.yml''
                                 else [p]) ps)"
  have dual: "?bad p \<longleftrightarrow> \<not> ?good p" for p
    by (cases "kind_of fsys p") auto
  have ok: "search_for_tests fsys ps = Inr ?all" if "\<forall>p\<in>set ps. ?good p"
    using search_loop_accepts [OF that, of "[]"] by (simp add: search_for_tests_def)
  have ko: "\<forall>p\<in>set ps. ?good p" if "search_for_tests fsys ps = Inr r" for r
    using that unfolding search_for_tests_def by (rule search_loop_rejects)
  have iff: "(\<exists>e. search_for_tests fsys ps = Inl e) \<longleftrightarrow> (\<exists>p\<in>set ps. ?bad p)"
  proof
    assume "\<exists>e. search_for_tests fsys ps = Inl e"
    then obtain e where e: "search_for_tests fsys ps = Inl e" ..
    have "\<not> (\<forall>p\<in>set ps. ?good p)"
    proof
      assume "\<forall>p\<in>set ps. ?good p"
      from ok [OF this] e show False by simp
    qed
    then show "\<exists>p\<in>set ps. ?bad p" unfolding dual by blast
  next
    assume "\<exists>p\<in>set ps. ?bad p"
    then have ng: "\<not> (\<forall>p\<in>set ps. ?good p)" unfolding dual by blast
    show "\<exists>e. search_for_tests fsys ps = Inl e"
    proof (cases "search_for_tests fsys ps")
      case (Inl e)
      then show ?thesis by blast
    next
      case (Inr r)
      from ko [OF this] ng show ?thesis by blast
    qed
  qed
  have res: "search_for_tests fsys ps = Inr ?all" if "\<forall>e. search_for_tests fsys ps \<noteq> Inl e"
  proof -
    from that obtain r where "search_for_tests fsys ps = Inr r"
      by (cases "search_for_tests fsys ps") auto
    from ko [OF this] show ?thesis by (rule ok)
  qed
  from iff res show ?thesis by blast
qed

lemma search_for_tests_examples:
  "search_for_tests example_fs [''psh'', ''libc/test.yml'']
      = Inr [''psh/test.yaml'', ''psh/login/test_login.yaml'', ''libc/test.yml'']
   \<and> (\<exists>e. search_for_tests example_fs [''psh'', ''empty''] = Inl e)
   \<and> (\<exists>e. search_for_tests example_fs [''notes.txt'', ''psh''] = Inl e)
   \<and> (\<exists>e. search_for_tests example_fs [''missing.yaml''] = Inl e)"
proof -
  note fs_defs = example_fs_def suffix_def final_component_def
  note a = search_for_tests_fails_iff_no_entry [of example_fs "[''psh'', ''libc/test.yml'']"]
  note b = search_for_tests_fails_iff_no_entry [of example_fs "[''psh'', ''empty'']"]
  note c = search_for_tests_fails_iff_no_entry [of example_fs "[''notes.txt'', ''psh'']"]
  note d = search_for_tests_fails_iff_no_entry [of example_fs "[''missing.yaml'']"]
  from a [THEN conjunct1] have "\<not> (\<exists>e. search_for_tests example_fs [''psh'', ''libc/test.yml''] = Inl e)"
    by (simp add: fs_defs)
  then have "\<forall>e. search_for_tests example_fs [''psh'', ''libc/test.yml''] \<noteq> Inl e" by blast
  with a [THEN conjunct2] have "search_for_tests example_fs [''psh'', ''libc/test.yml'']
      = Inr [''psh/test.yaml'', ''psh/login/test_login.yaml'', ''libc/test.yml'']"
    by (simp add: fs_defs)
  moreover from b [THEN conjunct1] have "\<exists>e. search_for_tests example_fs [''psh'', ''empty''] = Inl e"
    by (simp add: fs_defs)
  moreover from c [THEN conjunct1] have "\<exists>e. search_for_tests example_fs [''notes.txt'', ''psh''] = Inl e"
    by (simp add: fs_defs)
  moreover from d [THEN conjunct1] have "\<exists>e. search_for_tests example_fs [''missing.yaml''] = Inl e"
    by (simp add: fs_defs)
  ultimately show ?thesis by blast
qed

text \<open>
  Claim C8 says that \<open>search_for_tests\<close> fails for a directory containing zero files that
  match \<^verbatim>\<open>test*.yaml\<close> or \<^verbatim>\<open>test*.yml\<close>. The code fails only when \<^verbatim>\<open>rglob\<close> yields
  nothing, and \<^verbatim>\<open>rglob\<close> yields matching directories too: for the directory
  \<^verbatim>\<open>dirmatch\<close>, which holds no file but the sub-directory \<^verbatim>\<open>test_dir.yaml\<close>,
  \<open>search_for_tests\<close> does not fail and returns the sub-directory as a test
  configuration, where its docstring promises files.
\<close>

theorem search_for_tests_returns_directory:
  "search_for_tests dirmatch_fs [''dirmatch''] = Inr [''dirmatch/test_dir.yaml'']
   \<and> kind_of dirmatch_fs ''dirmatch'' = Directory
   \<and> kind_of dirmatch_fs ''dirmatch/test_dir.yaml'' = Directory
   \<and> (\<forall>p. kind_of dirmatch_fs p \<noteq> RegularFile)"
  by (simp add: search_for_tests_def is_dir_def dirmatch_fs_def)

section \<open>Logging in\<close>

lemma sent_send: "sent (send ops text p) = sent p @ [text]"
  by (simp add: send_def)

lemma sent_expect_exact:
  "expect_exact ops pats p = (r, p') \<Longrightarrow> sent p' = sent p"
  by (auto simp add: expect_exact_def split: prod.splits)

text \<open>
  Claim C10. Let \<open>r1\<close> and \<open>r2\<close> be what the session answers to the wait for the login
  echo and to the wait for \<^verbatim>\<open>Password:\<close>. When both are index 0, \<open>log_in\<close> returns and
  the texts sent are the login line, then the password line. When the first wait gives
  another index (index 1 is the timeout), \<open>log_in\<close> fails with the assertion error
  \<^verbatim>\<open>Cannot enter login to login prompt\<close>; when the second does, it fails with an
  assertion error without message. Whenever one of the two is not index 0, \<open>log_in\<close> fails
  and the only text sent is the login line: the password line is not sent.
\<close>

theorem log_in_sends_password_after_both_matches:
  assumes "expect_exact ops [Exact login, TIMEOUT] (send ops (login @ newline) p) = (r1, p2)"
    and "expect_exact ops [Exact ''Password:'', TIMEOUT] p2 = (r2, p3)"
  shows "(r1 = Inr 0 \<and> r2 = Inr 0 \<longrightarrow>
        log_in ops p login passwd = (Inr (), send ops (passwd @ newline) p3)
        \<and> sent (snd (log_in ops p login passwd)) = sent p @ [login @ newline, passwd @ newline])
    \<and> (r1 = Inr (Suc k) \<longrightarrow>
        log_in ops p login passwd
          = (Inl (AssertionError ''Cannot enter login to login prompt''), p2))
    \<and> (r1 = Inr 0 \<and> r2 = Inr (Suc k) \<longrightarrow>
        log_in ops p login passwd = (Inl (AssertionError []), p3))
    \<and> (r1 \<noteq> Inr 0 \<or> r2 \<noteq> Inr 0 \<longrightarrow>
        (\<exists>e. fst (log_in ops p login passwd) = Inl e)
        \<and> sent (snd (log_in ops p login passwd)) = sent p @ [login @ newline])"
proof -
  note s2 = sent_expect_exact [OF assms(1)]
  note s3 = sent_expect_exact [OF assms(2)]
  have both: "log_in ops p login passwd = (Inr (), send ops (passwd @ newline) p3)"
    if "r1 = Inr 0" "r2 = Inr 0"
    using that assms by (simp add: log_in_def)
  have first: "log_in ops p login passwd
          = (Inl (AssertionError ''Cannot enter login to login prompt''), p2)"
    if "r1 = Inr (Suc k)" for k
    using that assms by (simp add: log_in_def)
  have second: "log_in ops p login passwd = (Inl (AssertionError []), p3)"
    if "r1 = Inr 0" "r2 = Inr (Suc k)" for k
    using that assms by (simp add: log_in_def)
  have raise1: "log_in ops p login passwd = (Inl e, p2)" if "r1 = Inl e" for e
    using that assms by (simp add: log_in_def)
  have raise2: "log_in ops p login passwd = (Inl e, p3)" if "r1 = Inr 0" "r2 = Inl e" for e
    using that assms by (simp add: log_in_def)
  have fails: "(\<exists>e. fst (log_in ops p login passwd) = Inl e)
        \<and> sent (snd (log_in ops p login passwd)) = sent p @ [login @ newline]"
    if "r1 \<noteq> Inr 0 \<or> r2 \<noteq> Inr 0"
  proof (cases r1)
    case (Inl e)
    then show ?thesis by (simp add: raise1 s2 sent_send)
  next
    case r1: (Inr i)
    show ?thesis
    proof (cases i)
      case (Suc j)
      with r1 show ?thesis by (simp add: first s2 sent_send)
    next
      case 0
      with r1 have z: "r1 = Inr 0" by simp
      with that have nz: "r2 \<noteq> Inr 0" by simp
      show ?thesis
      proof (cases r2)
        case (Inl e)
        with z show ?thesis by (simp add: raise2 s2 s3 sent_send)
      next
        case r2: (Inr j)
        with nz obtain j' where "j = Suc j'" by (cases j) auto
        with r2 z show ?thesis by (simp add: second s2 s3 sent_send)
      qed
    qed
  qed
  from both first second fails show ?thesis
    by (simp add: sent_send s2 s3)
qed

theorem log_in_sends_password_after_both_matches_witness:
  "log_in (scripted [Inr 0, Inr 0]) fresh_session ''root'' ''secret''
      = (Inr (), \<lparr>chan = 2, sent = [''root'' @ newline, ''secret'' @ newline]\<rparr>)
   \<and> log_in (scripted [Inr 1]) fresh_session ''root'' ''secret''
      = (Inl (AssertionError ''Cannot enter login to login prompt''),
         \<lparr>chan = 1, sent = [''root'' @ newline]\<rparr>)
   \<and> log_in (scripted [Inr 0, Inr 1]) fresh_session ''root'' ''secret''
      = (Inl (AssertionError []), \<lparr>chan = 2, sent = [''root'' @ newline]\<rparr>)"
proof -
  note defs = scripted_def fresh_session_def expect_exact_def send_def
  have a1: "expect_exact (scripted [Inr 0, Inr 0]) [Exact ''root'', TIMEOUT]
       (send (scripted [Inr 0, Inr 0]) (''root'' @ newline) fresh_session)
      = (Inr 0, \<lparr>chan = 1, sent = [''root'' @ newline]\<rparr>)"
    by (simp add: defs)
  have a2: "expect_exact (scripted [Inr 0, Inr 0]) [Exact ''Password:'', TIMEOUT]
       \<lparr>chan = 1, sent = [''root'' @ newline]\<rparr>
      = (Inr 0, \<lparr>chan = 2, sent = [''root'' @ newline]\<rparr>)"
    by (simp add: defs)
  have b1: "expect_exact (scripted [Inr 1]) [Exact ''root'', TIMEOUT]
       (send (scripted [Inr 1]) (''root'' @ newline) fresh_session)
      = (Inr (Suc 0), \<lparr>chan = 1, sent = [''root'' @ newline]\<rparr>)"
    by (simp add: defs)
  have b2: "expect_exact (scripted [Inr 1]) [Exact ''Password:'', TIMEOUT]
       \<lparr>chan = 1, sent = [''root'' @ newline]\<rparr>
      = (Inr 1, \<lparr>chan = 2, sent = [''root'' @ newline]\<rparr>)"
    by (simp add: defs)
  have c1: "expect_exact (scripted [Inr 0, Inr 1]) [Exact ''root'', TIMEOUT]
       (send (scripted [Inr 0, Inr 1]) (''root'' @ newline) fresh_session)
      = (Inr 0, \<lparr>chan = 1, sent = [''root'' @ newline]\<rparr>)"
    by (simp add: defs)
  have c2: "expect_exact (scripted [Inr 0, Inr 1]) [Exact ''Password:'', TIMEOUT]
       \<lparr>chan = 1, sent = [''root'' @ newline]\<rparr>
      = (Inr (Suc 0), \<lparr>chan = 2, sent = [''root'' @ newline]\<rparr>)"
    by (simp add: defs)
  from log_in_sends_password_after_both_matches [where passwd = "''secret''" and k = 0, OF a1 a2]
  have a: "log_in (scripted [Inr 0, Inr 0]) fresh_session ''root'' ''secret''
      = (Inr (), \<lparr>chan = 2, sent = [''root'' @ newline, ''secret'' @ newline]\<rparr>)"
    by (simp add: send_def scripted_def)
  from log_in_sends_password_after_both_matches [where passwd = "''secret''" and k = 0, OF b1 b2]
  have b: "log_in (scripted [Inr 1]) fresh_session ''root'' ''secret''
      = (Inl (AssertionError ''Cannot enter login to login prompt''),
         \<lparr>chan = 1, sent = [''root'' @ newline]\<rparr>)"
    by simp
  from log_in_sends_password_after_both_matches [where passwd = "''secret''" and k = 0, OF c1 c2]
  have c: "log_in (scripted [Inr 0, Inr 1]) fresh_session ''root'' ''secret''
      = (Inl (AssertionError []), \<lparr>chan = 2, sent = [''root'' @ newline]\<rparr>)"
    by simp
  from a b c show ?thesis by blast
qed

end
